theory Spec2Isabelle
  imports Complex_Main "HOL-Library.List_Lexorder" "HOL-Library.Char_ord" "HOL-Library.AList"
begin

section \<open>Data model (layout.types.ts)\<close>

text \<open>
  The TypeScript interfaces become records. Several interfaces share field names
  (\<open>id\<close>, \<open>y\<close>, \<open>height\<close>, ...), so every field carries a short prefix of its
  interface: \<open>Point.x\<close> is \<open>pt_x\<close>, \<open>Segment.p1\<close> is \<open>seg_p1\<close>, and so on.
  A JavaScript \<open>number\<close> that holds a coordinate or a size is a \<open>real\<close>, and the
  arithmetic is exact, except in \<open>getOrientation\<close>, where the differences that are
  compared with 2 are rounded to binary64 as the code rounds them (\<open>binary64\<close> below).
  An optional number, and a number that can be NaN, is a \<open>real option\<close> (section
  Numbers). A rank is a natural number.
\<close>

record Point =
  pt_x :: real
  pt_y :: real

datatype orientation = Horizontal | Vertical | Diagonal

record Segment =
  seg_connectionId :: string
  seg_p1 :: Point
  seg_p2 :: Point
  seg_orientation :: orientation

record CollisionConflict =
  cf_connections :: "string \<times> string"
  cf_reason :: string
  cf_segment1 :: Segment
  cf_segment2 :: Segment

record LayoutConstants =
  colSpacing :: real
  rowSpacing :: real
  lanePadding :: real
  startXOffset :: real
  collisionThreshold :: real
  parallelOffset :: real

definition DEFAULT_LAYOUT_CONSTANTS :: LayoutConstants where
  "DEFAULT_LAYOUT_CONSTANTS =
     \<lparr>colSpacing = 80, rowSpacing = 30, lanePadding = 80, startXOffset = 150,
      collisionThreshold = 5, parallelOffset = 18\<rparr>"

text \<open>
  The field \<open>element: unknown\<close> of a node or a lane holds an object of the host
  editor. Such an object is known by a reference, a natural number; the store of the
  host (below) maps the reference to the fields of the object.
\<close>

type_synonym ref = nat

text \<open>
  \<open>LayoutNode.width\<close> and \<open>LayoutNode.height\<close> are declared as numbers, but
  \<open>buildGraphFromElements\<close> copies them from elements that the service casts to its
  parameter type without a check: they are \<open>undefined\<close> when the element has none.
\<close>

record LayoutNode =
  nd_id :: string
  nd_element :: ref
  nd_rank :: nat
  nd_laneId :: string
  nd_width :: "real option"
  nd_height :: "real option"

text \<open>
  \<open>LaneMeta.nodesByRank\<close> is a \<open>Map\<close> that is only read with \<open>get\<close> and \<open>has\<close> and written
  with \<open>set\<close>: a partial function from ranks to lists of nodes.
\<close>

record LaneMeta =
  ln_id :: string
  ln_element :: ref
  ln_maxStack :: nat
  ln_y :: real
  ln_height :: real
  ln_nodesByRank :: "nat \<rightharpoonup> LayoutNode list"

section \<open>Numbers\<close>

text \<open>
  A JavaScript \<open>number\<close> is an IEEE 754 binary64 value, and \<open>a - b\<close> is the exact
  difference rounded to the nearest such value, ties to the even significand.
  \<open>binary64 x\<close> is that rounding of a real \<open>x\<close>. The exponent \<open>e\<close> of \<open>\<bar>x\<bar>\<close> is found by
  halving (\<open>normUp\<close>) or doubling (\<open>normDown\<close>) until the value lies in \<open>[1, 2)\<close>, and is
  not taken below -1022, where the subnormal numbers begin; the significand has 52
  fraction bits, so the values near \<open>x\<close> are the multiples of \<open>2 powi (e - 52)\<close>. A result
  of magnitude \<open>2 ^ 1024\<close> or more stands for an infinity of the code.
\<close>

definition roundTiesToEven :: "real \<Rightarrow> int" where
  "roundTiesToEven r =
     (let f = \<lfloor>r\<rfloor> in
        if r - of_int f < 1 / 2 then f
        else if r - of_int f > 1 / 2 then f + 1
        else if even f then f else f + 1)"

function normUp :: "real \<Rightarrow> int \<Rightarrow> int" where
  "normUp x e = (if x < 2 then e else normUp (x / 2) (e + 1))"
  by pat_completeness auto
termination
  by (relation "measure (\<lambda>(x, e). nat \<lfloor>x\<rfloor>)") (auto simp: floor_less_iff, linarith)

function normDown :: "real \<Rightarrow> int \<Rightarrow> int" where
  "normDown x e = (if 1 \<le> x \<or> e \<le> - 1022 then e else normDown (2 * x) (e - 1))"
  by pat_completeness auto
termination
  by (relation "measure (\<lambda>(x, e). nat (e + 1022))") auto

declare normUp.simps [simp del] normDown.simps [simp del]

definition binary64 :: "real \<Rightarrow> real" where
  "binary64 x =
     (if x = 0 then 0
      else let e = (if 1 \<le> \<bar>x\<bar> then normUp \<bar>x\<bar> 0 else normDown \<bar>x\<bar> 0);
               ulp = 2 powi (e - 52)
           in sgn x * (of_int (roundTiesToEven (\<bar>x\<bar> / ulp)) * ulp))"

text \<open>
  The lane geometry computes with the width, height, \<open>x\<close> and \<open>y\<close> of elements, which
  can be \<open>undefined\<close>. In arithmetic \<open>undefined\<close> is converted to NaN, every operation
  with NaN gives NaN, and every comparison with NaN is false. A number that can be NaN
  is a \<open>real option\<close> with \<open>None\<close> for NaN, and an optional number enters the arithmetic
  as it is: \<open>arith f\<close> is the operation \<open>f\<close> on such numbers, and \<open>greater a b\<close> is the
  comparison \<open>a > b\<close> of such a number with a number.
\<close>

definition arith :: "(real \<Rightarrow> real \<Rightarrow> real) \<Rightarrow> real option \<Rightarrow> real option \<Rightarrow> real option" where
  "arith f a b = (case (a, b) of (Some x, Some y) \<Rightarrow> Some (f x y) | _ \<Rightarrow> None)"

definition greater :: "real option \<Rightarrow> real \<Rightarrow> bool" where
  "greater a b = (case a of Some x \<Rightarrow> x > b | None \<Rightarrow> False)"

section \<open>Collision detector (layout.collision.ts)\<close>

text \<open>
  \<open>if (Math.abs(p1.x - p2.x) < 2) return 'vertical'\<close>, and likewise for \<open>y\<close>. The largest
  binary64 value below 2 is \<open>2 - 1 / 2 ^ 52\<close>, so a difference just below 2 is rounded to
  2 and fails the test; the subtraction is therefore rounded here. \<open>Math.abs\<close> is exact.
\<close>

definition getOrientation :: "Point \<Rightarrow> Point \<Rightarrow> orientation" where
  "getOrientation p1 p2 =
     (if \<bar>binary64 (pt_x p1 - pt_x p2)\<bar> < 2 then Vertical
      else if \<bar>binary64 (pt_y p1 - pt_y p2)\<bar> < 2 then Horizontal
      else Diagonal)"

definition checkIntervalOverlap :: "real \<Rightarrow> real \<Rightarrow> real \<Rightarrow> real \<Rightarrow> bool" where
  "checkIntervalOverlap min1 max1 min2 max2 \<longleftrightarrow> max min1 min2 < min max1 max2 - 2"

definition checkSegmentCollision :: "Segment \<Rightarrow> Segment \<Rightarrow> real \<Rightarrow> bool" where
  "checkSegmentCollision seg1 seg2 threshold =
     (if seg_orientation seg1 \<noteq> seg_orientation seg2 then False
      else if seg_orientation seg1 = Horizontal then
        (if \<bar>pt_y (seg_p1 seg1) - pt_y (seg_p1 seg2)\<bar> > threshold then False
         else checkIntervalOverlap
                (min (pt_x (seg_p1 seg1)) (pt_x (seg_p2 seg1)))
                (max (pt_x (seg_p1 seg1)) (pt_x (seg_p2 seg1)))
                (min (pt_x (seg_p1 seg2)) (pt_x (seg_p2 seg2)))
                (max (pt_x (seg_p1 seg2)) (pt_x (seg_p2 seg2))))
      else if seg_orientation seg1 = Vertical then
        (if \<bar>pt_x (seg_p1 seg1) - pt_x (seg_p1 seg2)\<bar> > threshold then False
         else checkIntervalOverlap
                (min (pt_y (seg_p1 seg1)) (pt_y (seg_p2 seg1)))
                (max (pt_y (seg_p1 seg1)) (pt_y (seg_p2 seg1)))
                (min (pt_y (seg_p1 seg2)) (pt_y (seg_p2 seg2)))
                (max (pt_y (seg_p1 seg2)) (pt_y (seg_p2 seg2))))
      else False)"

text \<open>
  \<open>extractSegments\<close>: one segment per pair of consecutive waypoints; the loop
  \<open>for (i = 0; i < waypoints.length - 1; i++)\<close> is the recursion over the list.
\<close>

fun extractSegments :: "string \<Rightarrow> Point list \<Rightarrow> Segment list" where
  "extractSegments connectionId (p # q # ps) =
     \<lparr>seg_connectionId = connectionId, seg_p1 = p, seg_p2 = q,
      seg_orientation = getOrientation p q\<rparr> # extractSegments connectionId (q # ps)"
| "extractSegments connectionId ps = []"

definition mkConflict :: "Segment \<Rightarrow> Segment \<Rightarrow> CollisionConflict" where
  "mkConflict seg1 seg2 =
     \<lparr>cf_connections = (seg_connectionId seg1, seg_connectionId seg2),
      cf_reason = ''Overlap or near-collision detected'',
      cf_segment1 = seg1, cf_segment2 = seg2\<rparr>"

text \<open>
  \<open>detectCollisions\<close>: the outer loop takes \<open>seg1 = allSegments[i]\<close>, the inner loop
  every later \<open>seg2 = allSegments[j]\<close>, \<open>j > i\<close>; conflicts are pushed in that order.
\<close>

fun detectCollisions :: "Segment list \<Rightarrow> real \<Rightarrow> CollisionConflict list" where
  "detectCollisions [] threshold = []"
| "detectCollisions (seg1 # rest) threshold =
     map (mkConflict seg1)
       (filter (\<lambda>seg2. seg_connectionId seg1 \<noteq> seg_connectionId seg2
                      \<and> checkSegmentCollision seg1 seg2 threshold) rest)
     @ detectCollisions rest threshold"

section \<open>Connector router (layout.waypoints.ts)\<close>

definition computeManhattanWaypoints ::
  "real \<Rightarrow> real \<Rightarrow> real \<Rightarrow> real \<Rightarrow> real \<Rightarrow> real \<Rightarrow> real \<Rightarrow> real \<Rightarrow> Point list" where
  "computeManhattanWaypoints sourceX sourceY sourceWidth sourceHeight
       targetX targetY targetWidth targetHeight =
     (let sourceCenter = \<lparr>pt_x = sourceX + sourceWidth / 2, pt_y = sourceY + sourceHeight / 2\<rparr>;
          targetCenter = \<lparr>pt_x = targetX + targetWidth / 2, pt_y = targetY + targetHeight / 2\<rparr>;
          waypoints = [\<lparr>pt_x = sourceX + sourceWidth, pt_y = pt_y sourceCenter\<rparr>];
          midX = (sourceX + sourceWidth + targetX) / 2;
          waypoints =
            (if targetX > sourceX + sourceWidth + 20
             then waypoints @ [\<lparr>pt_x = midX, pt_y = pt_y sourceCenter\<rparr>,
                               \<lparr>pt_x = midX, pt_y = pt_y targetCenter\<rparr>]
             else waypoints @ [\<lparr>pt_x = targetX - 20, pt_y = pt_y sourceCenter\<rparr>,
                               \<lparr>pt_x = targetX - 20, pt_y = pt_y targetCenter\<rparr>])
      in waypoints @ [\<lparr>pt_x = targetX, pt_y = pt_y targetCenter\<rparr>])"

section \<open>Collision resolver (layout.collision.ts)\<close>

text \<open>
  \<open>applySegmentDrift\<close> and \<open>applyDriftToWaypoints\<close> write to the point objects of the
  array they are given. \<open>computeResolvedWaypoints\<close> calls them on its own copy only, an
  array of pairwise distinct fresh objects, so in this section an array of points is a
  list of values and a write returns the updated list. The store model further below
  keeps the point objects in an explicit heap and is shown to compute the same result.
\<close>

definition shiftY :: "real \<Rightarrow> Point \<Rightarrow> Point" where
  "shiftY offset p = p\<lparr>pt_y := pt_y p + offset\<rparr>"

definition shiftX :: "real \<Rightarrow> Point \<Rightarrow> Point" where
  "shiftX offset p = p\<lparr>pt_x := pt_x p + offset\<rparr>"

definition applySegmentDrift :: "Point list \<Rightarrow> int \<Rightarrow> real \<Rightarrow> orientation \<Rightarrow> Point list" where
  "applySegmentDrift waypoints segmentIndex offset orientation =
     (if segmentIndex < 0 \<or> segmentIndex \<ge> int (length waypoints) - 1 then waypoints
      else let i = nat segmentIndex in
        if orientation = Horizontal
        then (waypoints[i := shiftY offset (waypoints ! i)])
                       [i + 1 := shiftY offset (waypoints ! (i + 1))]
        else (waypoints[i := shiftX offset (waypoints ! i)])
                       [i + 1 := shiftX offset (waypoints ! (i + 1))])"

text \<open>
  \<open>for (let i = 2; i < waypoints.length - 1; i++) waypoints[i].y += offset\<close>. On an empty
  array the bound is \<open>-1\<close> in the source and the truncated \<open>0\<close> here; the loop starts at 2, so
  neither runs.
\<close>

definition applyDriftToWaypoints :: "Point list \<Rightarrow> real \<Rightarrow> Point list" where
  "applyDriftToWaypoints waypoints offset =
     fold (\<lambda>i ws. ws[i := shiftY offset (ws ! i)]) [2..<length waypoints - 1] waypoints"

text \<open>
  \<open>ConnectionLike\<close>: \<open>source\<close> and \<open>target\<close> have type \<open>unknown\<close> and are only compared
  with \<open>===\<close>; they are values of an arbitrary type \<open>'e\<close> compared with \<open>=\<close>.
\<close>

record 'e ConnectionLike =
  cn_id :: string
  cn_waypoints :: "Point list"
  cn_source :: 'e
  cn_target :: 'e

record OverlapDetails =
  ov_segmentIndex :: nat
  ov_orientation :: orientation
  ov_isPositiveDirection :: bool

text \<open>
  \<open>checkConnectionOverlapDetails\<close>: the inner loop over the segments \<open>(q1, q2)\<close> of
  \<open>conn2\<close> for a fixed segment \<open>(p1, p2)\<close> of \<open>conn1\<close> with index \<open>i\<close>, and the outer
  loop over the segments of \<open>conn1\<close>. The first match returns.
\<close>

fun overlapInner ::
  "(Segment \<Rightarrow> Segment \<Rightarrow> bool) \<Rightarrow> nat \<Rightarrow> Point \<Rightarrow> Point \<Rightarrow> Point list \<Rightarrow> OverlapDetails option" where
  "overlapInner checkCollision i p1 p2 (q1 # q2 # qs) =
     (let orientation = getOrientation p1 p2;
          otherOrientation = getOrientation q1 q2
      in if orientation \<noteq> otherOrientation then overlapInner checkCollision i p1 p2 (q2 # qs)
         else let seg1 = \<lparr>seg_connectionId = [], seg_p1 = p1, seg_p2 = p2,
                          seg_orientation = orientation\<rparr>;
                  seg2 = \<lparr>seg_connectionId = [], seg_p1 = q1, seg_p2 = q2,
                          seg_orientation = otherOrientation\<rparr>
           in if \<not> checkCollision seg1 seg2 then overlapInner checkCollision i p1 p2 (q2 # qs)
              else if orientation = Diagonal then overlapInner checkCollision i p1 p2 (q2 # qs)
              else Some \<lparr>ov_segmentIndex = i, ov_orientation = orientation,
                         ov_isPositiveDirection =
                           (if orientation = Horizontal
                            then (pt_y p1 + pt_y p2) / 2 \<ge> (pt_y q1 + pt_y q2) / 2
                            else (pt_x p1 + pt_x p2) / 2 \<ge> (pt_x q1 + pt_x q2) / 2)\<rparr>)"
| "overlapInner checkCollision i p1 p2 qs = None"

fun overlapOuter ::
  "(Segment \<Rightarrow> Segment \<Rightarrow> bool) \<Rightarrow> nat \<Rightarrow> Point list \<Rightarrow> Point list \<Rightarrow> OverlapDetails option" where
  "overlapOuter checkCollision i (p1 # p2 # ps) qs =
     (case overlapInner checkCollision i p1 p2 qs of
        Some details \<Rightarrow> Some details
      | None \<Rightarrow> overlapOuter checkCollision (Suc i) (p2 # ps) qs)"
| "overlapOuter checkCollision i ps qs = None"

definition checkConnectionOverlapDetails ::
  "Point list \<Rightarrow> 'e ConnectionLike \<Rightarrow> (Segment \<Rightarrow> Segment \<Rightarrow> bool) \<Rightarrow> OverlapDetails option" where
  "checkConnectionOverlapDetails conn1_waypoints conn2 checkCollision =
     overlapOuter checkCollision 0 conn1_waypoints (cn_waypoints conn2)"

text \<open>\<open>Array.prototype.findIndex\<close>: the first index whose element satisfies the test, -1 if none.\<close>

fun findIndex :: "('a \<Rightarrow> bool) \<Rightarrow> 'a list \<Rightarrow> int" where
  "findIndex P [] = -1"
| "findIndex P (x # xs) =
     (if P x then 0 else (let r = findIndex P xs in if r < 0 then -1 else r + 1))"

definition isParallel :: "'e ConnectionLike \<Rightarrow> 'e ConnectionLike \<Rightarrow> bool" where
  "isParallel targetConnection other \<longleftrightarrow>
     (cn_source targetConnection = cn_source other \<and> cn_target targetConnection = cn_target other)
     \<or> (cn_source targetConnection = cn_target other \<and> cn_target targetConnection = cn_source other)"

text \<open>
  The offset of the parallel fan-out. \<open>String.prototype.localeCompare\<close> is the host's
  collation, which is not part of the repository: it is the parameter \<open>key\<close>, a collation
  key into a linear order, with \<open>a.localeCompare(b) < 0\<close> iff \<open>key a < key b\<close> and
  \<open>a.localeCompare(b) = 0\<close> iff \<open>key a = key b\<close>. \<open>Array.prototype.sort\<close> is stable, and so
  is \<open>sort_key\<close>.
\<close>

definition parallelFanOffset ::
  "(string \<Rightarrow> 'k::linorder) \<Rightarrow> 'e ConnectionLike \<Rightarrow> 'e ConnectionLike list \<Rightarrow> LayoutConstants \<Rightarrow> real" where
  "parallelFanOffset key targetConnection parallelGroup constants =
     (let allParallel = sort_key (\<lambda>c. key (cn_id c)) (targetConnection # parallelGroup);
          index = findIndex (\<lambda>c. cn_id c = cn_id targetConnection) allParallel;
          n = length allParallel
      in (real_of_int index - (real n - 1) / 2) * parallelOffset constants)"

text \<open>One iteration of \<open>for (const other of otherConnections)\<close> on \<open>(waypoints, updated)\<close>.\<close>

definition nudgeStep ::
  "'e ConnectionLike \<Rightarrow> LayoutConstants \<Rightarrow> 'e ConnectionLike \<Rightarrow> Point list \<times> bool \<Rightarrow> Point list \<times> bool" where
  "nudgeStep targetConnection constants other st =
     (let waypoints = fst st; updated = snd st in
      if isParallel targetConnection other then (waypoints, updated)
      else case checkConnectionOverlapDetails waypoints other
                  (\<lambda>s1 s2. checkSegmentCollision s1 s2 (collisionThreshold constants)) of
             None \<Rightarrow> (waypoints, updated)
           | Some overlap \<Rightarrow>
               (let direction = (if ov_isPositiveDirection overlap then 1 else -1)
                in (applySegmentDrift waypoints (int (ov_segmentIndex overlap))
                      (parallelOffset constants * direction) (ov_orientation overlap), True)))"

definition computeResolvedWaypoints ::
  "(string \<Rightarrow> 'k::linorder) \<Rightarrow> 'e ConnectionLike \<Rightarrow> 'e ConnectionLike list \<Rightarrow> LayoutConstants
     \<Rightarrow> Point list \<times> bool" where
  "computeResolvedWaypoints key targetConnection otherConnections constants =
     (let waypoints = map (\<lambda>w. \<lparr>pt_x = pt_x w, pt_y = pt_y w\<rparr>) (cn_waypoints targetConnection)
      in if length waypoints < 2 then (waypoints, False)
         else
           let parallelGroup = filter (isParallel targetConnection) otherConnections;
               st = (if length parallelGroup > 0
                     then let offset = parallelFanOffset key targetConnection parallelGroup constants
                          in if \<bar>offset\<bar> > 1 then (applyDriftToWaypoints waypoints offset, True)
                             else (waypoints, False)
                     else (waypoints, False))
           in fold (nudgeStep targetConnection constants) otherConnections st)"

section \<open>The collision resolver on a heap of point objects\<close>

text \<open>
  The same functions with the point objects in an explicit heap: a heap is the list of
  all point objects, a reference is an index into it, and \<open>{ x: w.x, y: w.y }\<close> allocates
  a new object at the end. A waypoint array is a list of references; the functions never
  assign to an array element, so the arrays are values. \<open>p.y += offset\<close> on a reference
  \<open>p\<close> is a write to the heap, which \<open>applySegmentDrift_h\<close> and
  \<open>applyDriftToWaypoints_h\<close> perform in the order of the source.
  \<open>checkConnectionOverlapDetails\<close>, \<open>isParallel\<close> and the offset of the fan-out only read,
  so they take the points read from the current heap (\<open>viewConnection\<close>).
\<close>

record 'e ConnectionRefs =
  cr_id :: string
  cr_waypoints :: "ref list"
  cr_source :: 'e
  cr_target :: 'e

definition viewConnection :: "Point list \<Rightarrow> 'e ConnectionRefs \<Rightarrow> 'e ConnectionLike" where
  "viewConnection h c =
     \<lparr>cn_id = cr_id c, cn_waypoints = map (\<lambda>a. h ! a) (cr_waypoints c),
      cn_source = cr_source c, cn_target = cr_target c\<rparr>"

definition copyWaypoints_h :: "Point list \<Rightarrow> ref list \<Rightarrow> Point list \<times> ref list" where
  "copyWaypoints_h h ws =
     (h @ map (\<lambda>a. \<lparr>pt_x = pt_x (h ! a), pt_y = pt_y (h ! a)\<rparr>) ws,
      [length h..<length h + length ws])"

definition applySegmentDrift_h ::
  "Point list \<Rightarrow> ref list \<Rightarrow> int \<Rightarrow> real \<Rightarrow> orientation \<Rightarrow> Point list" where
  "applySegmentDrift_h h waypoints segmentIndex offset orientation =
     (if segmentIndex < 0 \<or> segmentIndex \<ge> int (length waypoints) - 1 then h
      else let p1 = waypoints ! nat segmentIndex;
               p2 = waypoints ! (nat segmentIndex + 1)
           in if orientation = Horizontal
              then (let h' = h[p1 := shiftY offset (h ! p1)] in h'[p2 := shiftY offset (h' ! p2)])
              else (let h' = h[p1 := shiftX offset (h ! p1)] in h'[p2 := shiftX offset (h' ! p2)]))"

definition applyDriftToWaypoints_h :: "Point list \<Rightarrow> ref list \<Rightarrow> real \<Rightarrow> Point list" where
  "applyDriftToWaypoints_h h waypoints offset =
     fold (\<lambda>i h. h[waypoints ! i := shiftY offset (h ! (waypoints ! i))])
       [2..<length waypoints - 1] h"

definition nudgeStep_h ::
  "'e ConnectionRefs \<Rightarrow> LayoutConstants \<Rightarrow> ref list \<Rightarrow> 'e ConnectionRefs
     \<Rightarrow> Point list \<times> bool \<Rightarrow> Point list \<times> bool" where
  "nudgeStep_h targetConnection constants waypoints other s =
     (let h = fst s; updated = snd s in
      if isParallel (viewConnection h targetConnection) (viewConnection h other) then (h, updated)
      else case checkConnectionOverlapDetails (map (\<lambda>a. h ! a) waypoints) (viewConnection h other)
                  (\<lambda>s1 s2. checkSegmentCollision s1 s2 (collisionThreshold constants)) of
             None \<Rightarrow> (h, updated)
           | Some overlap \<Rightarrow>
               (let direction = (if ov_isPositiveDirection overlap then 1 else -1)
                in (applySegmentDrift_h h waypoints (int (ov_segmentIndex overlap))
                      (parallelOffset constants * direction) (ov_orientation overlap), True)))"

definition computeResolvedWaypoints_h ::
  "(string \<Rightarrow> 'k::linorder) \<Rightarrow> Point list \<Rightarrow> 'e ConnectionRefs \<Rightarrow> 'e ConnectionRefs list
     \<Rightarrow> LayoutConstants \<Rightarrow> Point list \<times> ref list \<times> bool" where
  "computeResolvedWaypoints_h key h targetConnection otherConnections constants =
     (case copyWaypoints_h h (cr_waypoints targetConnection) of (h1, waypoints) \<Rightarrow>
        if length waypoints < 2 then (h1, waypoints, False)
        else
          let parallelGroup = filter (\<lambda>other. isParallel (viewConnection h1 targetConnection)
                                                 (viewConnection h1 other)) otherConnections;
              s = (if length parallelGroup > 0
                   then let offset = parallelFanOffset key (viewConnection h1 targetConnection)
                                       (map (viewConnection h1) parallelGroup) constants
                        in if \<bar>offset\<bar> > 1 then (applyDriftToWaypoints_h h1 waypoints offset, True)
                           else (h1, False)
                   else (h1, False))
          in case fold (nudgeStep_h targetConnection constants waypoints) otherConnections s of
               (h3, updated) \<Rightarrow> (h3, waypoints, updated))"

section \<open>The host editor (bpmn-layout.service.ts, interfaces)\<close>

text \<open>
  The elements of the diagram are objects owned by the host editor; the service holds
  references to them and the host changes their fields when it executes a command. The
  store maps every reference to the current fields of its object. \<open>BpmnElementLike\<close>
  and \<open>BpmnConnectionLike\<close> are one record: \<open>parent\<close>, \<open>outgoing\<close>, \<open>source\<close> and \<open>target\<close>
  are references, an optional field is an \<open>option\<close>. \<open>el_hidden\<close> is the truthiness of
  \<open>hidden\<close>, \<open>el_businessObject\<close> says that \<open>businessObject\<close> is neither null nor undefined
  (its content is never read). A numeric field of a stored element is a number or
  absent; a store with NaN or an infinity in a field is outside the model.
\<close>

record BpmnElementLike =
  el_id :: string
  el_type :: string
  el_parent :: "ref option"
  el_x :: "real option"
  el_y :: "real option"
  el_width :: "real option"
  el_height :: "real option"
  el_outgoing :: "ref list option"
  el_hidden :: bool
  el_businessObject :: bool
  el_waypoints :: "Point list"
  el_source :: "ref option"
  el_target :: "ref option"

type_synonym store = "ref \<Rightarrow> BpmnElementLike"

record Bounds =
  bd_x :: real
  bd_y :: real
  bd_width :: real
  bd_height :: real

text \<open>
  The three mutation commands of \<open>context.modeling\<close>, with their arguments. The delta
  \<open>{ x: dx, y: dy }\<close> of a move is computed by the lane geometry and can hold NaN.
\<close>

record Delta =
  dl_x :: "real option"
  dl_y :: "real option"

datatype command =
  MoveElements "ref list" Delta "ref option"
| ResizeShape ref Bounds
| UpdateWaypoints ref "Point list"

text \<open>
  \<open>BpmnLayoutContext\<close>: \<open>elementRegistry.filter\<close> enumerates \<open>ctx_registry\<close> in order,
  \<open>canvas.getRootElement()\<close> is \<open>ctx_root\<close>. The host's execution of a command is not
  part of the repository: it is the parameter \<open>modeling\<close> of the operations below, any
  function from a command and a store to the store after the command.
\<close>

record BpmnLayoutContext =
  ctx_registry :: "ref list"
  ctx_store :: store
  ctx_root :: "ref option"

type_synonym modeling = "command \<Rightarrow> store \<Rightarrow> store"

definition registry_filter :: "BpmnLayoutContext \<Rightarrow> (BpmnElementLike \<Rightarrow> bool) \<Rightarrow> ref list" where
  "registry_filter context predicate =
     filter (\<lambda>r. predicate (ctx_store context r)) (ctx_registry context)"

section \<open>Graph builder and rank assigner (layout.graph.ts)\<close>

text \<open>
  A JavaScript \<open>Map\<close> that is iterated is an association list in insertion order, with
  \<open>Map.get\<close> as \<open>map_of\<close> and \<open>Map.set\<close> as \<open>AList.update\<close> (a new key goes to the end, an
  old key keeps its place). Reading a property of \<open>undefined\<close> throws a \<open>TypeError\<close>.
\<close>

datatype error = TypeError

type_synonym nodeMap = "(string \<times> LayoutNode) list"

type_synonym adjacency = "(string \<times> string list) list"

text \<open>The first loop of \<open>buildGraphFromElements\<close>, for one element \<open>el\<close>.\<close>

definition addNode ::
  "store \<Rightarrow> ref \<Rightarrow> nodeMap \<times> adjacency \<times> (string \<rightharpoonup> nat)
     \<Rightarrow> error + nodeMap \<times> adjacency \<times> (string \<rightharpoonup> nat)" where
  "addNode st el g =
     (case g of (nodeMap, adjacency, inDegree) \<Rightarrow>
        case el_parent (st el) of
          None \<Rightarrow> Inl TypeError
        | Some parent \<Rightarrow>
            Inr (AList.update (el_id (st el))
                   \<lparr>nd_id = el_id (st el), nd_element = el, nd_rank = 0,
                    nd_laneId = el_id (st parent), nd_width = el_width (st el),
                    nd_height = el_height (st el)\<rparr> nodeMap,
                 AList.update (el_id (st el)) [] adjacency,
                 inDegree(el_id (st el) \<mapsto> 0)))"

text \<open>The second loop, for one connection \<open>conn\<close> of \<open>el.outgoing\<close>.\<close>

definition addEdge ::
  "store \<Rightarrow> ref \<Rightarrow> ref \<Rightarrow> nodeMap \<times> adjacency \<times> (string \<rightharpoonup> nat)
     \<Rightarrow> error + nodeMap \<times> adjacency \<times> (string \<rightharpoonup> nat)" where
  "addEdge st el conn g =
     (case g of (nodeMap, adjacency, inDegree) \<Rightarrow>
        case el_target (st conn) of
          None \<Rightarrow> Inl TypeError
        | Some target \<Rightarrow>
            (let targetId = el_id (st target) in
             if map_of nodeMap targetId \<noteq> None
             then (case map_of adjacency (el_id (st el)) of
                     None \<Rightarrow> Inl TypeError
                   | Some neighbors \<Rightarrow>
                       Inr (nodeMap,
                            AList.update (el_id (st el)) (neighbors @ [targetId]) adjacency,
                            inDegree(targetId \<mapsto>
                              (case inDegree targetId of None \<Rightarrow> 0 | Some d \<Rightarrow> d) + 1)))
             else Inr g))"

text \<open>A loop whose body may throw: the first error ends it.\<close>

fun foldE :: "('a \<Rightarrow> 's \<Rightarrow> error + 's) \<Rightarrow> 'a list \<Rightarrow> 's \<Rightarrow> error + 's" where
  "foldE f [] s = Inr s"
| "foldE f (x # xs) s = (case f x s of Inl e \<Rightarrow> Inl e | Inr s' \<Rightarrow> foldE f xs s')"

definition buildGraphFromElements ::
  "store \<Rightarrow> ref list \<Rightarrow> error + nodeMap \<times> adjacency \<times> (string \<rightharpoonup> nat)" where
  "buildGraphFromElements st elements =
     (case foldE (addNode st) elements ([], [], Map.empty) of
        Inl e \<Rightarrow> Inl e
      | Inr g \<Rightarrow>
          foldE (\<lambda>el. foldE (addEdge st el)
                         (case el_outgoing (st el) of None \<Rightarrow> [] | Some out \<Rightarrow> out))
            elements g)"

text \<open>\<open>assignRanks\<close>: the in-degrees, the initial queue and the loop.\<close>

definition computeInDegree :: "nodeMap \<Rightarrow> adjacency \<Rightarrow> (string \<rightharpoonup> nat)" where
  "computeInDegree nodeMap adjacency =
     fold (\<lambda>(fromId, neighbors). fold (\<lambda>toId inDegree.
             inDegree(toId \<mapsto> (case inDegree toId of None \<Rightarrow> 0 | Some d \<Rightarrow> d) + 1)) neighbors)
       adjacency
       (fold (\<lambda>(k, node) inDegree. inDegree(k \<mapsto> 0)) nodeMap Map.empty)"

definition initialQueue :: "nodeMap \<Rightarrow> adjacency \<Rightarrow> string list" where
  "initialQueue nodeMap adjacency =
     (let inDegree = computeInDegree nodeMap adjacency;
          queue = map (\<lambda>(k, node). nd_id node)
                    (filter (\<lambda>(k, node). inDegree (nd_id node) = Some 0) nodeMap)
      in if length queue = 0 \<and> length nodeMap > 0 then queue @ [fst (hd nodeMap)] else queue)"

text \<open>
  The body of \<open>for (const nextId of neighbors)\<close>. The rank of \<open>currNode\<close> is read from the
  map each time, as the source reads it from the object: it changes when a node is its
  own successor.
\<close>

definition relax :: "string \<Rightarrow> string \<Rightarrow> nodeMap \<times> string list \<Rightarrow> error + nodeMap \<times> string list" where
  "relax currId nextId s =
     (case s of (nodeMap, queue) \<Rightarrow>
        case map_of nodeMap nextId of
          None \<Rightarrow> Inl TypeError
        | Some nextNode \<Rightarrow>
            (case map_of nodeMap currId of
               None \<Rightarrow> Inl TypeError
             | Some currNode \<Rightarrow>
                 if nd_rank nextNode \<le> nd_rank currNode
                 then Inr (AList.update nextId (nextNode\<lparr>nd_rank := nd_rank currNode + 1\<rparr>) nodeMap,
                           queue @ [nextId])
                 else Inr (nodeMap, queue)))"

text \<open>
  \<open>while (queue.length > 0)\<close>: the loop may run forever, so it is a partial function
  into \<open>option\<close>; \<open>None\<close> means that it does not return.
\<close>

partial_function (option) rankLoop ::
  "adjacency \<Rightarrow> nodeMap \<times> string list \<Rightarrow> (error + nodeMap) option" where
  "rankLoop adjacency s =
     (case snd s of
        [] \<Rightarrow> Some (Inr (fst s))
      | currId # queue \<Rightarrow>
          (case foldE (relax currId)
                  (case map_of adjacency currId of None \<Rightarrow> [] | Some neighbors \<Rightarrow> neighbors)
                  (fst s, queue) of
             Inl e \<Rightarrow> Some (Inl e)
           | Inr s' \<Rightarrow> rankLoop adjacency s'))"

declare rankLoop.simps [code]

definition assignRanks :: "nodeMap \<Rightarrow> adjacency \<Rightarrow> (error + nodeMap) option" where
  "assignRanks nodeMap adjacency = rankLoop adjacency (nodeMap, initialQueue nodeMap adjacency)"

text \<open>The rank a node map records for a node id, and the edges of an adjacency list.\<close>

definition rankOf :: "nodeMap \<Rightarrow> string \<Rightarrow> nat option" where
  "rankOf nodeMap k = map_option nd_rank (map_of nodeMap k)"

definition edges :: "adjacency \<Rightarrow> (string \<times> string) set" where
  "edges adjacency = {(u, v). \<exists>neighbors. map_of adjacency u = Some neighbors \<and> v \<in> set neighbors}"

section \<open>Lane geometry engine (layout.geometry.ts)\<close>

text \<open>\<open>v ?? 0\<close> for an optional number.\<close>

definition num :: "real option \<Rightarrow> real" where
  "num v = (case v of None \<Rightarrow> 0 | Some r \<Rightarrow> r)"

record LaneInput =
  li_id :: string
  li_y :: real
  li_height :: real
  li_element :: ref

type_synonym laneData = "(string \<times> LaneMeta) list"

text \<open>\<open>meta.nodesByRank.get(r) ?? []\<close>\<close>

definition nodesAt :: "LaneMeta \<Rightarrow> nat \<Rightarrow> LayoutNode list" where
  "nodesAt meta r = (case ln_nodesByRank meta r of None \<Rightarrow> [] | Some nodes \<Rightarrow> nodes)"

text \<open>The body of \<open>nodeMap.forEach\<close> in \<open>buildLaneData\<close>.\<close>

definition placeNode :: "LayoutNode \<Rightarrow> laneData \<times> nat \<Rightarrow> laneData \<times> nat" where
  "placeNode node s =
     (case s of (laneData, maxGlobalRank) \<Rightarrow>
        let maxGlobalRank = (if nd_rank node > maxGlobalRank then nd_rank node else maxGlobalRank)
        in case map_of laneData (nd_laneId node) of
             None \<Rightarrow> (laneData, maxGlobalRank)
           | Some meta \<Rightarrow>
               (AList.update (nd_laneId node)
                  (meta\<lparr>ln_nodesByRank :=
                      (ln_nodesByRank meta)(nd_rank node \<mapsto> nodesAt meta (nd_rank node) @ [node])\<rparr>)
                  laneData,
                maxGlobalRank))"

definition buildLaneData :: "LaneInput list \<Rightarrow> nodeMap \<Rightarrow> laneData \<times> nat" where
  "buildLaneData lanes nodeMap =
     (let laneData =
            fold (\<lambda>lane. AList.update (li_id lane)
                    \<lparr>ln_id = li_id lane, ln_element = li_element lane, ln_maxStack = 1,
                     ln_y = li_y lane, ln_height = li_height lane, ln_nodesByRank = Map.empty\<rparr>)
              lanes []
      in fold (\<lambda>(k, node). placeNode node) nodeMap (laneData, 0))"

text \<open>\<open>for (let r = 0; r <= maxGlobalRank; r++)\<close> runs over \<open>[0..<Suc maxGlobalRank]\<close>.\<close>

text \<open>
  \<open>if (n.width > maxWidth) maxWidth = n.width\<close>: the assignment is reached with a width
  that is a number.
\<close>

definition maxWidthAt :: "laneData \<Rightarrow> nat \<Rightarrow> real" where
  "maxWidthAt laneData r =
     fold (\<lambda>(k, meta). fold (\<lambda>n maxWidth. case nd_width n of
                                             Some w \<Rightarrow> if w > maxWidth then w else maxWidth
                                           | None \<Rightarrow> maxWidth)
                          (nodesAt meta r))
       laneData 100"

definition computeRankWidths :: "laneData \<Rightarrow> nat \<Rightarrow> (nat \<rightharpoonup> real)" where
  "computeRankWidths laneData maxGlobalRank =
     fold (\<lambda>r rankWidths. rankWidths(r \<mapsto> maxWidthAt laneData r)) [0..<Suc maxGlobalRank] Map.empty"

text \<open>
  \<open>nodes.reduce((sum, n) => sum + n.height, 0) + (nodes.length - 1) * constants.rowSpacing\<close>,
  which is NaN when a node of the stack has no height.
\<close>

definition stackHeight :: "LayoutConstants \<Rightarrow> LayoutNode list \<Rightarrow> real option" where
  "stackHeight constants nodes =
     arith (+) (foldl (\<lambda>sum n. arith (+) sum (nd_height n)) (Some 0) nodes)
               (Some ((real (length nodes) - 1) * rowSpacing constants))"

text \<open>
  \<open>if (stackHeight > maxStackHeight) maxStackHeight = stackHeight\<close>: a stack height that
  is NaN is passed over.
\<close>

definition maxStackHeight :: "LayoutConstants \<Rightarrow> LaneMeta \<Rightarrow> nat \<Rightarrow> real" where
  "maxStackHeight constants meta maxGlobalRank =
     fold (\<lambda>r m. case stackHeight constants (nodesAt meta r) of
                    Some h \<Rightarrow> if h > m then h else m
                  | None \<Rightarrow> m)
       [0..<Suc maxGlobalRank] 0"

text \<open>
  \<open>computeLaneHeights\<close> assigns \<open>meta.height\<close> of every lane; \<open>meta.element.height\<close> is read
  from the store.
\<close>

definition computeLaneHeights :: "store \<Rightarrow> laneData \<Rightarrow> nat \<Rightarrow> LayoutConstants \<Rightarrow> laneData" where
  "computeLaneHeights st laneData maxGlobalRank constants =
     map (\<lambda>(k, meta).
            let requiredHeight = maxStackHeight constants meta maxGlobalRank + lanePadding constants * 2
            in (k, meta\<lparr>ln_height := max (num (el_height (st (ln_element meta)))) requiredHeight\<rparr>))
       laneData"

record NodePosition =
  np_nodeId :: string
  np_x :: real
  np_y :: "real option"
  np_dx :: "real option"
  np_dy :: "real option"
  np_laneId :: string

record LaneResize =
  lr_laneId :: string
  lr_y :: real
  lr_height :: real
  lr_element :: ref
  lr_isRoot :: bool

text \<open>
  The first loop of \<open>computeLayout\<close>, over the lanes sorted by the Y of their elements.
  \<open>meta.y = ...\<close> writes to the object that \<open>laneData\<close> holds under its key, so the loop
  carries the keys along and updates \<open>laneData\<close>.
\<close>

definition stackLane ::
  "store \<Rightarrow> string option \<Rightarrow> string \<times> LaneMeta \<Rightarrow> real \<times> LaneResize list \<times> laneData
     \<Rightarrow> real \<times> LaneResize list \<times> laneData" where
  "stackLane st rootElementId entry s =
     (case (entry, s) of ((k, meta), (currentLaneY, laneResizes, laneData)) \<Rightarrow>
        let isRoot = (Some (el_id (st (ln_element meta))) = rootElementId)
        in if \<not> isRoot
           then (currentLaneY + ln_height meta,
                 laneResizes @ [\<lparr>lr_laneId = ln_id meta, lr_y = currentLaneY,
                                  lr_height = ln_height meta, lr_element = ln_element meta,
                                  lr_isRoot = False\<rparr>],
                 AList.update k (meta\<lparr>ln_y := currentLaneY\<rparr>) laneData)
           else (currentLaneY,
                 laneResizes @ [\<lparr>lr_laneId = ln_id meta, lr_y = 0,
                                  lr_height = ln_height meta, lr_element = ln_element meta,
                                  lr_isRoot = True\<rparr>],
                 AList.update k (meta\<lparr>ln_y := 0\<rparr>) laneData))"

text \<open>
  The body of \<open>nodeMap.forEach\<close> in \<open>computeLayout\<close>. \<open>siblings.indexOf(node)\<close> compares
  objects; the nodes of a node map are distinct objects with distinct identifiers, so
  the comparison of the records finds the same index. \<open>newX\<close> is always a number;
  \<open>newY\<close> is NaN when a sibling has no height, \<open>dx\<close> and \<open>dy\<close> are NaN when the element
  of the node has no \<open>x\<close> or \<open>y\<close>.
\<close>

definition positionNode ::
  "store \<Rightarrow> laneData \<Rightarrow> (nat \<rightharpoonup> real) \<Rightarrow> LayoutConstants \<Rightarrow> string option \<Rightarrow> LayoutNode
     \<Rightarrow> NodePosition list \<Rightarrow> NodePosition list" where
  "positionNode st laneData rankWidths constants rootElementId node nodePositions =
     (case map_of laneData (nd_laneId node) of
        None \<Rightarrow> nodePositions
      | Some meta \<Rightarrow>
          let isRoot = (Some (el_id (st (ln_element meta))) = rootElementId);
              startX = (if isRoot then startXOffset constants
                        else num (el_x (st (ln_element meta))) + lanePadding constants);
              newX = fold (\<lambda>i newX. newX + (case rankWidths i of None \<Rightarrow> 100 | Some w \<Rightarrow> w)
                                       + colSpacing constants)
                       [0..<nd_rank node] startX;
              siblings = nodesAt meta (nd_rank node);
              index = findIndex (\<lambda>n. n = node) siblings;
              totalStackHeight =
                arith (+) (foldl (\<lambda>sum n. arith (+) sum (nd_height n)) (Some 0) siblings)
                          (Some (max 0 (real (length siblings) - 1) * rowSpacing constants));
              laneCenterY = ln_y meta + ln_height meta / 2;
              startStackY = arith (-) (Some laneCenterY) (arith (/) totalStackHeight (Some 2));
              stackOffset =
                fold (\<lambda>i stackOffset.
                        arith (+) stackOffset
                          (arith (+) (nd_height (siblings ! i)) (Some (rowSpacing constants))))
                  [0..<nat index] (Some 0);
              newY = arith (+) startStackY stackOffset
          in nodePositions @
               [\<lparr>np_nodeId = nd_id node, np_x = newX, np_y = newY,
                 np_dx = arith (-) (Some newX) (el_x (st (nd_element node))),
                 np_dy = arith (-) newY (el_y (st (nd_element node))),
                 np_laneId = nd_laneId node\<rparr>])"

text \<open>
  \<open>computeLayout\<close> returns the node positions and the lane resizes; the lane data with
  the Y it has assigned to the lanes is the third component of the result here.
\<close>

definition computeLayout ::
  "store \<Rightarrow> laneData \<Rightarrow> nodeMap \<Rightarrow> (nat \<rightharpoonup> real) \<Rightarrow> LayoutConstants \<Rightarrow> string option
     \<Rightarrow> error + NodePosition list \<times> LaneResize list \<times> laneData" where
  "computeLayout st laneData nodeMap rankWidths constants rootElementId =
     (let laneList = sort_key (\<lambda>(k, meta). num (el_y (st (ln_element meta)))) laneData
      in case laneList of
           [] \<Rightarrow> Inl TypeError
         | first # rest \<Rightarrow>
             (case fold (stackLane st rootElementId) laneList
                     (num (el_y (st (ln_element (snd first)))), [], laneData) of
                (currentLaneY, laneResizes, laneData) \<Rightarrow>
                  Inr (fold (\<lambda>(k, node). positionNode st laneData rankWidths constants
                                             rootElementId node) nodeMap [],
                       laneResizes, laneData)))"

section \<open>Collision resolution by the service (bpmn-layout.service.ts)\<close>

text \<open>
  The object literal \<open>{id: c.id, waypoints: c.waypoints, source: c.source, target: c.target}\<close>
  read from the current store.
\<close>

definition asConnectionLike :: "store \<Rightarrow> ref \<Rightarrow> (ref option) ConnectionLike" where
  "asConnectionLike st c =
     \<lparr>cn_id = el_id (st c), cn_waypoints = el_waypoints (st c),
      cn_source = el_source (st c), cn_target = el_target (st c)\<rparr>"

text \<open>
  The body of \<open>for (const conn of connections)\<close>. The state is the store, the commands
  issued so far and \<open>anyUpdated\<close>.
\<close>

definition resolveOne ::
  "modeling \<Rightarrow> (string \<Rightarrow> 'k::linorder) \<Rightarrow> LayoutConstants \<Rightarrow> ref list \<Rightarrow> ref
     \<Rightarrow> store \<times> command list \<times> bool \<Rightarrow> store \<times> command list \<times> bool" where
  "resolveOne modeling key constants connections conn s =
     (case s of (st, issued, anyUpdated) \<Rightarrow>
        let others = filter (\<lambda>c. el_id (st c) \<noteq> el_id (st conn)) connections;
            res = computeResolvedWaypoints key (asConnectionLike st conn)
                    (map (asConnectionLike st) others) constants
        in if snd res
           then (modeling (UpdateWaypoints conn (fst res)) st,
                 issued @ [UpdateWaypoints conn (fst res)], True)
           else (st, issued, anyUpdated))"

text \<open>\<open>for (let pass = 0; pass < maxPasses; pass++)\<close>, with \<open>passes\<close> iterations left.\<close>

fun resolvePasses ::
  "modeling \<Rightarrow> (string \<Rightarrow> 'k::linorder) \<Rightarrow> LayoutConstants \<Rightarrow> ref list \<Rightarrow> nat
     \<Rightarrow> store \<times> command list \<Rightarrow> store \<times> command list" where
  "resolvePasses modeling key constants connections 0 s = s"
| "resolvePasses modeling key constants connections (Suc passes) s =
     (case fold (resolveOne modeling key constants connections) connections (fst s, snd s, False) of
        (st, issued, anyUpdated) \<Rightarrow>
          if \<not> anyUpdated then (st, issued)
          else resolvePasses modeling key constants connections passes (st, issued))"

definition resolveEdgeCollisions ::
  "modeling \<Rightarrow> (string \<Rightarrow> 'k::linorder) \<Rightarrow> BpmnLayoutContext \<Rightarrow> nat \<Rightarrow> LayoutConstants
     \<Rightarrow> store \<times> command list" where
  "resolveEdgeCollisions modeling key context maxPasses constants =
     (let connections = registry_filter context (\<lambda>e. el_type e = ''bpmn:SequenceFlow'')
      in if length connections = 0 then (ctx_store context, [])
         else resolvePasses modeling key constants connections maxPasses (ctx_store context, []))"

text \<open>\<open>BpmnLayoutService.detectCollisions\<close>, with the threshold as a parameter.\<close>

definition allSegments :: "BpmnLayoutContext \<Rightarrow> Segment list" where
  "allSegments context =
     concat (map (\<lambda>c. extractSegments (el_id (ctx_store context c)) (el_waypoints (ctx_store context c)))
               (registry_filter context (\<lambda>e. el_type e = ''bpmn:SequenceFlow'')))"

definition service_detectCollisions :: "BpmnLayoutContext \<Rightarrow> CollisionConflict list" where
  "service_detectCollisions context =
     detectCollisions (allSegments context) (collisionThreshold DEFAULT_LAYOUT_CONSTANTS)"

section \<open>Auto layout by the service (bpmn-layout.service.ts)\<close>

definition getLanes :: "BpmnLayoutContext \<Rightarrow> ref list" where
  "getLanes context =
     (let lanes = registry_filter context (\<lambda>e. el_type e = ''bpmn:Lane'');
          lanes = (if length lanes = 0
                   then registry_filter context (\<lambda>e. el_type e = ''bpmn:Participant'') else lanes);
          lanes = (if length lanes = 0
                   then registry_filter context (\<lambda>e. el_type e = ''bpmn:Process'') else lanes)
      in lanes)"

definition getFlowElements :: "BpmnLayoutContext \<Rightarrow> ref list" where
  "getFlowElements context =
     registry_filter context (\<lambda>e.
        el_type e \<noteq> ''bpmn:Lane'' \<and> el_type e \<noteq> ''bpmn:Participant''
        \<and> el_type e \<noteq> ''bpmn:Process'' \<and> el_type e \<noteq> ''bpmn:SequenceFlow''
        \<and> el_type e \<noteq> ''bpmn:Association'' \<and> el_type e \<noteq> ''label''
        \<and> \<not> el_hidden e \<and> el_businessObject e)"

text \<open>
  The service issues a command by calling the host: the state of the service is the
  store together with the list of the commands issued so far.
\<close>

definition issue :: "modeling \<Rightarrow> command \<Rightarrow> store \<times> command list \<Rightarrow> store \<times> command list" where
  "issue modeling cmd s = (modeling cmd (fst s), snd s @ [cmd])"

text \<open>The body of \<open>for (const resize of laneResizes)\<close>; the element is read from the current store.\<close>

definition resizeLane :: "modeling \<Rightarrow> LaneResize \<Rightarrow> store \<times> command list \<Rightarrow> store \<times> command list" where
  "resizeLane modeling resize s =
     (if lr_isRoot resize then s
      else let el = fst s (lr_element resize) in
        if Some (lr_height resize) \<noteq> el_height el
        then issue modeling
               (ResizeShape (lr_element resize)
                  \<lparr>bd_x = num (el_x el), bd_y = lr_y resize, bd_width = num (el_width el),
                   bd_height = lr_height resize\<rparr>) s
        else if Some (lr_y resize) \<noteq> el_y el
        then issue modeling
               (MoveElements [lr_element resize]
                  \<lparr>dl_x = Some 0, dl_y = Some (lr_y resize - num (el_y el))\<rparr> None) s
        else s)"

text \<open>
  The body of \<open>for (const pos of nodePositions)\<close>. \<open>laneById\<close> is built from the lanes
  after the resizes: a later lane with the same identifier replaces an earlier one.
  \<open>Math.abs(dx) > 1 || Math.abs(dy) > 1\<close> is false for a delta that is NaN, and the move
  is issued with the deltas as they are when either test holds.
\<close>

definition moveNode ::
  "modeling \<Rightarrow> nodeMap \<Rightarrow> laneData \<Rightarrow> (string \<rightharpoonup> ref) \<Rightarrow> NodePosition
     \<Rightarrow> store \<times> command list \<Rightarrow> store \<times> command list" where
  "moveNode modeling nodeMap laneData laneById pos s =
     (case map_of nodeMap (np_nodeId pos) of
        None \<Rightarrow> s
      | Some node \<Rightarrow>
          (case map_of laneData (np_laneId pos) of
             None \<Rightarrow> s
           | Some meta \<Rightarrow>
               if greater (map_option abs (np_dx pos)) 1 \<or> greater (map_option abs (np_dy pos)) 1
               then let parent = (case laneById (np_laneId pos) of
                                    None \<Rightarrow> ln_element meta | Some lane \<Rightarrow> lane)
                    in issue modeling
                         (MoveElements [nd_element node] \<lparr>dl_x = np_dx pos, dl_y = np_dy pos\<rparr>
                            (Some parent)) s
               else s))"

text \<open>A JavaScript \<open>Set\<close> keeps the first insertion of every element.\<close>

definition addToSet :: "'a \<Rightarrow> 'a list \<Rightarrow> 'a list" where
  "addToSet x xs = (if x \<in> set xs then xs else xs @ [x])"

definition rerouteOne :: "modeling \<Rightarrow> ref \<Rightarrow> store \<times> command list \<Rightarrow> store \<times> command list" where
  "rerouteOne modeling conn s =
     (case (el_source (fst s conn), el_target (fst s conn)) of
        (Some source, Some target) \<Rightarrow>
          issue modeling
            (UpdateWaypoints conn
               (computeManhattanWaypoints
                  (num (el_x (fst s source))) (num (el_y (fst s source)))
                  (num (el_width (fst s source))) (num (el_height (fst s source)))
                  (num (el_x (fst s target))) (num (el_y (fst s target)))
                  (num (el_width (fst s target))) (num (el_height (fst s target))))) s
      | _ \<Rightarrow> s)"

definition rerouteConnections ::
  "modeling \<Rightarrow> ref list \<Rightarrow> store \<times> command list \<Rightarrow> store \<times> command list" where
  "rerouteConnections modeling elements s =
     (let connections =
            fold (\<lambda>el. fold addToSet (case el_outgoing (fst s el) of None \<Rightarrow> [] | Some out \<Rightarrow> out))
              elements []
      in fold (rerouteOne modeling) connections s)"

text \<open>\<open>{ id: lane.id, y: lane.y ?? 0, height: lane.height ?? 0, element: lane }\<close>\<close>

definition laneInputOf :: "store \<Rightarrow> ref \<Rightarrow> LaneInput" where
  "laneInputOf st lane =
     \<lparr>li_id = el_id (st lane), li_y = num (el_y (st lane)),
      li_height = num (el_height (st lane)), li_element = lane\<rparr>"

text \<open>
  \<open>autoLayout\<close>. The result is \<open>None\<close> when \<open>assignRanks\<close> does not return, an error when
  an exception ends the call (all of them arise before the first command), and otherwise
  the store after the call with the commands issued.
\<close>

definition autoLayout ::
  "modeling \<Rightarrow> BpmnLayoutContext \<Rightarrow> LayoutConstants \<Rightarrow> (error + store \<times> command list) option" where
  "autoLayout modeling context constants =
     (let st = ctx_store context;
          lanes = getLanes context;
          elements = getFlowElements context
      in if length lanes = 0 \<or> length elements = 0 then Some (Inr (st, []))
         else case buildGraphFromElements st elements of
           Inl e \<Rightarrow> Some (Inl e)
         | Inr (nodeMap, adjacency, inDegree) \<Rightarrow>
             (case assignRanks nodeMap adjacency of
                None \<Rightarrow> None
              | Some (Inl e) \<Rightarrow> Some (Inl e)
              | Some (Inr nodeMap) \<Rightarrow>
                  (let laneInput = map (laneInputOf st) lanes
                   in case buildLaneData laneInput nodeMap of (laneData, maxGlobalRank) \<Rightarrow>
                     let laneData = computeLaneHeights st laneData maxGlobalRank constants;
                         rankWidths = computeRankWidths laneData maxGlobalRank;
                         rootId = map_option (\<lambda>r. el_id (st r)) (ctx_root context)
                     in case computeLayout st laneData nodeMap rankWidths constants rootId of
                          Inl e \<Rightarrow> Some (Inl e)
                        | Inr (nodePositions, laneResizes, laneData) \<Rightarrow>
                            (let s1 = fold (resizeLane modeling) laneResizes (st, []);
                                 laneById = map_of (rev (map (\<lambda>l. (el_id (fst s1 l), l)) lanes));
                                 s2 = fold (moveNode modeling nodeMap laneData laneById)
                                        nodePositions s1
                             in Some (Inr (rerouteConnections modeling elements s2))))))"

section \<open>Sample data\<close>

text \<open>
  Modelled from the spec: the host's three mutation commands (move-elements-by-delta,
  optionally under a new parent; resize-shape-to-bounds; replace-connector-waypoints),
  which the repository only calls. \<open>specHost\<close> is used in the examples only; every
  theorem about the service holds for an arbitrary host. A store holds numbers and
  absent fields only: where a move by NaN would leave NaN in a coordinate, \<open>specHost\<close>
  leaves the coordinate absent.
\<close>

definition specHost :: modeling where
  "specHost cmd st =
     (case cmd of
        MoveElements rs delta parent \<Rightarrow>
          (\<lambda>r. if r \<in> set rs
                then (st r)\<lparr>el_x := arith (+) (el_x (st r)) (dl_x delta),
                            el_y := arith (+) (el_y (st r)) (dl_y delta),
                            el_parent := (case parent of None \<Rightarrow> el_parent (st r) | Some p \<Rightarrow> Some p)\<rparr>
                else st r)
      | ResizeShape r b \<Rightarrow>
          st(r := (st r)\<lparr>el_x := Some (bd_x b), el_y := Some (bd_y b),
                          el_width := Some (bd_width b), el_height := Some (bd_height b)\<rparr>)
      | UpdateWaypoints c ws \<Rightarrow> st(c := (st c)\<lparr>el_waypoints := ws\<rparr>))"

text \<open>
  An element with no field set, a sequence flow between two elements, and a shape with
  its type, parent, bounds and outgoing sequence flows.
\<close>

definition blankElement :: BpmnElementLike where
  "blankElement = \<lparr>el_id = [], el_type = [], el_parent = None, el_x = None, el_y = None,
     el_width = None, el_height = None, el_outgoing = None, el_hidden = False,
     el_businessObject = False, el_waypoints = [], el_source = None, el_target = None\<rparr>"

definition sequenceFlow :: "string \<Rightarrow> ref \<Rightarrow> ref \<Rightarrow> Point list \<Rightarrow> BpmnElementLike" where
  "sequenceFlow i s t ws = blankElement\<lparr>el_id := i, el_type := ''bpmn:SequenceFlow'',
     el_businessObject := True, el_waypoints := ws, el_source := Some s, el_target := Some t\<rparr>"

definition shape ::
  "string \<Rightarrow> string \<Rightarrow> ref option \<Rightarrow> real \<Rightarrow> real \<Rightarrow> real \<Rightarrow> real \<Rightarrow> ref list \<Rightarrow> BpmnElementLike" where
  "shape i ty parent xv yv w h outgoing = blankElement\<lparr>el_id := i, el_type := ty,
     el_parent := parent, el_x := Some xv, el_y := Some yv, el_width := Some w,
     el_height := Some h, el_outgoing := Some outgoing, el_businessObject := True\<rparr>"

text \<open>The store that holds the listed objects at the references 0, 1, 2, ...\<close>

definition storeOf :: "BpmnElementLike list \<Rightarrow> store" where
  "storeOf es = (\<lambda>r. if r < length es then es ! r else blankElement)"

text \<open>
  A horizontal segment from \<open>(a, yv)\<close> to \<open>(b, yv)\<close>, two routes of five waypoints far
  apart, and a connector on the first route: connectors \<open>flow i\<close> with different
  identifiers are parallel.
\<close>

abbreviation hseg :: "real \<Rightarrow> real \<Rightarrow> real \<Rightarrow> Segment" where
  "hseg a b yv \<equiv> \<lparr>seg_connectionId = [], seg_p1 = \<lparr>pt_x = a, pt_y = yv\<rparr>,
         seg_p2 = \<lparr>pt_x = b, pt_y = yv\<rparr>, seg_orientation = Horizontal\<rparr>"

definition wpsA :: "Point list" where
  "wpsA = [\<lparr>pt_x = 100, pt_y = 40\<rparr>, \<lparr>pt_x = 200, pt_y = 40\<rparr>, \<lparr>pt_x = 200, pt_y = 140\<rparr>,
           \<lparr>pt_x = 250, pt_y = 140\<rparr>, \<lparr>pt_x = 300, pt_y = 140\<rparr>]"

definition wpsB :: "Point list" where
  "wpsB = [\<lparr>pt_x = 100, pt_y = 400\<rparr>, \<lparr>pt_x = 200, pt_y = 400\<rparr>, \<lparr>pt_x = 200, pt_y = 500\<rparr>,
           \<lparr>pt_x = 250, pt_y = 500\<rparr>, \<lparr>pt_x = 300, pt_y = 500\<rparr>]"

definition flow :: "string \<Rightarrow> string ConnectionLike" where
  "flow i = \<lparr>cn_id = i, cn_waypoints = wpsA, cn_source = ''Task_A'', cn_target = ''Task_B''\<rparr>"

text \<open>
  Two tasks joined by two sequence flows on the two routes, and the same two routes
  between three tasks.
\<close>

definition parallelDiagram :: BpmnLayoutContext where
  "parallelDiagram = \<lparr>ctx_registry = [0, 1, 2, 3],
     ctx_store = storeOf
       [shape ''Task_A'' ''bpmn:Task'' None 0 0 100 80 [2, 3],
        shape ''Task_B'' ''bpmn:Task'' None 300 100 100 80 [],
        sequenceFlow ''Flow_1'' 0 1 wpsA,
        sequenceFlow ''Flow_2'' 0 1 wpsB],
     ctx_root = None\<rparr>"

definition chainDiagram :: BpmnLayoutContext where
  "chainDiagram = \<lparr>ctx_registry = [0, 1, 2, 3, 4],
     ctx_store = storeOf
       [shape ''Task_A'' ''bpmn:Task'' None 0 0 100 80 [3],
        shape ''Task_B'' ''bpmn:Task'' None 300 100 100 80 [4],
        shape ''Task_C'' ''bpmn:Task'' None 300 460 100 80 [],
        sequenceFlow ''Flow_1'' 0 1 wpsA,
        sequenceFlow ''Flow_2'' 1 2 wpsB],
     ctx_root = None\<rparr>"

text \<open>
  A heap with two routes of five points, the second 3 units below the first, and two
  connectors on them that are not parallel.
\<close>

definition heapAB :: "Point list" where
  "heapAB = wpsA @ map (shiftY 3) wpsA"

definition targetRefs :: "string ConnectionRefs" where
  "targetRefs = \<lparr>cr_id = ''Flow_1'', cr_waypoints = [0, 1, 2, 3, 4],
                  cr_source = ''Task_A'', cr_target = ''Task_B''\<rparr>"

definition otherRefs :: "string ConnectionRefs" where
  "otherRefs = \<lparr>cr_id = ''Flow_2'', cr_waypoints = [5, 6, 7, 8, 9],
                 cr_source = ''Task_A'', cr_target = ''Task_C''\<rparr>"

text \<open>
  Diagrams with one lane: a cycle of two tasks; an isolated task next to a cycle with a
  tail; a chain of three tasks in a lane that is too low for them; a lane with its label
  and no flow element.
\<close>

definition cycleDiagram :: BpmnLayoutContext where
  "cycleDiagram = \<lparr>ctx_registry = [0, 1, 2, 3, 4],
     ctx_store = storeOf
       [shape ''Lane_1'' ''bpmn:Lane'' None 0 0 600 200 [],
        shape ''Task_A'' ''bpmn:Task'' (Some 0) 100 60 100 80 [3],
        shape ''Task_B'' ''bpmn:Task'' (Some 0) 300 60 100 80 [4],
        sequenceFlow ''Flow_1'' 1 2 [],
        sequenceFlow ''Flow_2'' 2 1 []],
     ctx_root = None\<rparr>"

definition tailDiagram :: BpmnLayoutContext where
  "tailDiagram = \<lparr>ctx_registry = [0, 1, 2, 3, 4, 5, 6, 7],
     ctx_store = storeOf
       [shape ''Lane_1'' ''bpmn:Lane'' None 0 0 600 200 [],
        shape ''Task_R'' ''bpmn:Task'' (Some 0) 100 60 100 80 [],
        shape ''Task_A'' ''bpmn:Task'' (Some 0) 100 60 100 80 [5],
        shape ''Task_B'' ''bpmn:Task'' (Some 0) 300 60 100 80 [6, 7],
        shape ''Task_C'' ''bpmn:Task'' (Some 0) 500 60 100 80 [],
        sequenceFlow ''Flow_1'' 2 3 [],
        sequenceFlow ''Flow_2'' 3 2 [],
        sequenceFlow ''Flow_3'' 3 4 []],
     ctx_root = None\<rparr>"

definition laneDiagram :: BpmnLayoutContext where
  "laneDiagram = \<lparr>ctx_registry = [0, 1, 2, 3, 4, 5],
     ctx_store = storeOf
       [shape ''Lane_1'' ''bpmn:Lane'' None 0 0 600 100 [],
        shape ''Task_A'' ''bpmn:Task'' (Some 0) 100 10 100 80 [4],
        shape ''Task_B'' ''bpmn:Task'' (Some 0) 300 10 100 80 [5],
        shape ''Task_C'' ''bpmn:Task'' (Some 0) 500 10 100 80 [],
        sequenceFlow ''Flow_1'' 1 2 [],
        sequenceFlow ''Flow_2'' 2 3 []],
     ctx_root = None\<rparr>"

definition noSizeDiagram :: BpmnLayoutContext where
  "noSizeDiagram = \<lparr>ctx_registry = [0, 1],
     ctx_store = storeOf
       [shape ''Lane_1'' ''bpmn:Lane'' None 0 0 600 100 [],
        (shape ''Task_A'' ''bpmn:Task'' (Some 0) 100 10 0 0 [])\<lparr>el_width := None, el_height := None\<rparr>],
     ctx_root = None\<rparr>"

definition onlyLaneDiagram :: BpmnLayoutContext where
  "onlyLaneDiagram = \<lparr>ctx_registry = [0, 1],
     ctx_store = storeOf
       [shape ''Lane_1'' ''bpmn:Lane'' None 0 0 600 100 [],
        blankElement\<lparr>el_id := ''Lane_1_label'', el_type := ''label''\<rparr>],
     ctx_root = None\<rparr>"

text \<open>
  The node maps and adjacency lists that \<open>buildGraphFromElements\<close> makes of these
  diagrams, with the ranks as parameters where a proof follows them, and the lane data of
  the sample lane with the tasks B and C both at rank 1.
\<close>

definition taskNode :: "string \<Rightarrow> ref \<Rightarrow> nat \<Rightarrow> LayoutNode" where
  "taskNode i r k = \<lparr>nd_id = i, nd_element = r, nd_rank = k, nd_laneId = ''Lane_1'',
                     nd_width = Some 100, nd_height = Some 80\<rparr>"

definition laneNodes :: "nat \<Rightarrow> nat \<Rightarrow> nat \<Rightarrow> nodeMap" where
  "laneNodes ra rb rc = [(''Task_A'', taskNode ''Task_A'' 1 ra), (''Task_B'', taskNode ''Task_B'' 2 rb),
                         (''Task_C'', taskNode ''Task_C'' 3 rc)]"

definition laneAdjacency :: adjacency where
  "laneAdjacency = [(''Task_A'', [''Task_B'']), (''Task_B'', [''Task_C'']), (''Task_C'', [])]"

definition tailNodes :: nodeMap where
  "tailNodes = [(''Task_R'', taskNode ''Task_R'' 1 0), (''Task_A'', taskNode ''Task_A'' 2 0),
                (''Task_B'', taskNode ''Task_B'' 3 0), (''Task_C'', taskNode ''Task_C'' 4 0)]"

definition tailAdjacency :: adjacency where
  "tailAdjacency = [(''Task_R'', []), (''Task_A'', [''Task_B'']),
                    (''Task_B'', [''Task_A'', ''Task_C'']), (''Task_C'', [])]"

definition cycleNodes :: "nat \<Rightarrow> nat \<Rightarrow> nodeMap" where
  "cycleNodes ra rb =
     [(''Task_A'', taskNode ''Task_A'' 1 ra), (''Task_B'', taskNode ''Task_B'' 2 rb)]"

definition cycleAdjacency :: adjacency where
  "cycleAdjacency = [(''Task_A'', [''Task_B'']), (''Task_B'', [''Task_A''])]"

definition sampleLaneData :: laneData where
  "sampleLaneData =
     fst (buildLaneData (map (laneInputOf (ctx_store laneDiagram)) [0]) (laneNodes 0 1 1))"

text \<open>
  The same lane entered with a height, 500, that is not the height of its element, 100.
\<close>

definition tallLaneInput :: LaneInput where
  "tallLaneInput = \<lparr>li_id = ''Lane_1'', li_y = 0, li_height = 500, li_element = 0\<rparr>"

definition tallLaneData :: laneData where
  "tallLaneData = fst (buildLaneData [tallLaneInput] (laneNodes 0 1 1))"

section \<open>Predicates of the proofs\<close>

text \<open>No two connectors of the diagram with different identifiers are parallel.\<close>

definition noParallelConnectors :: "BpmnLayoutContext \<Rightarrow> bool" where
  "noParallelConnectors context \<longleftrightarrow>
     (let connections = registry_filter context (\<lambda>e. el_type e = ''bpmn:SequenceFlow'')
      in \<forall>c \<in> set connections. \<forall>d \<in> set connections.
           el_id (ctx_store context c) \<noteq> el_id (ctx_store context d) \<longrightarrow>
           \<not> isParallel (asConnectionLike (ctx_store context) c) (asConnectionLike (ctx_store context) d))"

text \<open>
  The heap \<open>k\<close> extends the heap \<open>h0\<close>: every object of \<open>h0\<close> is in \<open>k\<close> with the same
  fields, and \<open>ws\<close> are distinct objects of \<open>k\<close> that are not in \<open>h0\<close>.
\<close>

definition extendsHeap :: "Point list \<Rightarrow> Point list \<Rightarrow> ref list \<Rightarrow> bool" where
  "extendsHeap h0 k ws \<longleftrightarrow>
     length h0 \<le> length k \<and> (\<forall>a < length h0. k ! a = h0 ! a)
     \<and> distinct ws \<and> (\<forall>a \<in> set ws. length h0 \<le> a \<and> a < length k)"

text \<open>
  The states of the rank assignment on the cycle of two tasks: the queue holds one task,
  whose rank is at least the rank of the other.
\<close>

definition cycleState :: "nodeMap \<times> string list \<Rightarrow> bool" where
  "cycleState s \<longleftrightarrow>
     (\<exists>ra rb. (s = (cycleNodes ra rb, [''Task_A'']) \<and> rb \<le> ra)
            \<or> (s = (cycleNodes ra rb, [''Task_B'']) \<and> ra \<le> rb))"

text \<open>
  The invariant of the rank assignment. While \<open>c\<close> is being processed and \<open>rem\<close> are its
  successors still to come, every edge \<open>(u, v)\<close> from a node of the map has its source in
  the queue, or is an edge from \<open>c\<close> to one of \<open>rem\<close>, or has \<open>rank u < rank v\<close> (it is
  \<open>good\<close>), or its source still has rank 0 and is not one of the nodes the queue started
  with.
\<close>

definition good :: "nodeMap \<Rightarrow> string \<Rightarrow> string \<Rightarrow> bool" where
  "good nm u v \<longleftrightarrow> (\<exists>ru rv. rankOf nm u = Some ru \<and> rankOf nm v = Some rv \<and> ru < rv)"

definition rankInv ::
  "adjacency \<Rightarrow> string set \<Rightarrow> string \<Rightarrow> string list \<Rightarrow> nodeMap \<times> string list \<Rightarrow> bool" where
  "rankInv adjacency seeds c rem s \<longleftrightarrow>
     (\<forall>u v. (u, v) \<in> edges adjacency \<longrightarrow> rankOf (fst s) u \<noteq> None \<longrightarrow>
        u \<in> set (snd s) \<or> (u = c \<and> v \<in> set rem) \<or> good (fst s) u v
        \<or> (rankOf (fst s) u = Some 0 \<and> u \<notin> seeds))"

text \<open>
  What \<open>buildLaneData\<close> establishes for the lanes of \<open>autoLayout\<close>, for lane data with its
  \<open>maxGlobalRank\<close>: the height of a lane is the height of its element (0 when the
  element has none), and no lane holds nodes at a rank above \<open>maxGlobalRank\<close>.
\<close>

definition laneInv :: "store \<Rightarrow> laneData \<times> nat \<Rightarrow> bool" where
  "laneInv st s \<longleftrightarrow>
     (\<forall>(k, m) \<in> set (fst s).
        ln_height m = num (el_height (st (ln_element m)))
        \<and> (\<forall>r nodes. ln_nodesByRank m r = Some nodes \<longrightarrow> r \<le> snd s))"

section \<open>Orientation and segment collision\<close>

subsection \<open>Rounding to binary64\<close>

lemma roundTiesToEven_bounds:
  "\<lfloor>r\<rfloor> \<le> roundTiesToEven r" "roundTiesToEven r \<le> \<lfloor>r\<rfloor> + 1"
  by (simp_all add: roundTiesToEven_def Let_def)

text \<open>Below an even integer \<open>n\<close>, the tie \<open>n - 1 / 2\<close> is the first value rounded to \<open>n\<close>.\<close>

lemma roundTiesToEven_less_iff:
  assumes "even n"
  shows "roundTiesToEven q < n \<longleftrightarrow> q < of_int n - 1 / 2"
proof
  assume l: "roundTiesToEven q < n"
  show "q < of_int n - 1 / 2"
  proof (rule ccontr)
    assume "\<not> q < of_int n - 1 / 2"
    then have ge: "of_int n - 1 / 2 \<le> q" by simp
    then have "of_int (n - 1) \<le> q" by simp
    then have f: "n - 1 \<le> \<lfloor>q\<rfloor>" by (simp only: le_floor_iff)
    from l roundTiesToEven_bounds(1) [of q] have "\<lfloor>q\<rfloor> < n" by simp
    with f have fe: "\<lfloor>q\<rfloor> = n - 1" by simp
    with assms have odd: "odd \<lfloor>q\<rfloor>" by simp
    from ge fe have "1 / 2 \<le> q - of_int \<lfloor>q\<rfloor>" by simp
    with odd fe have "roundTiesToEven q = n"
      by (simp add: roundTiesToEven_def Let_def)
    with l show False by simp
  qed
next
  assume r: "q < of_int n - 1 / 2"
  then have "q < of_int n" by simp
  then have f: "\<lfloor>q\<rfloor> < n" by (simp only: floor_less_iff)
  show "roundTiesToEven q < n"
  proof (cases "\<lfloor>q\<rfloor> = n - 1")
    case True
    with r have "q - of_int \<lfloor>q\<rfloor> < 1 / 2" by simp
    with True show ?thesis by (simp add: roundTiesToEven_def Let_def)
  next
    case False
    with f have "\<lfloor>q\<rfloor> + 1 < n" by simp
    with roundTiesToEven_bounds(2) [of q] show ?thesis by simp
  qed
qed

lemma powi_Suc: "(2::real) powi (k + 1) = 2 * 2 powi k"
  by (simp add: power_int_add)

lemma powi_shift: "(2::real) powi (k - 52) * 2 ^ 52 = 2 powi k"
proof -
  have "(2::real) powi ((k - 52) + 52) = 2 powi (k - 52) * 2 powi 52"
    by (rule power_int_add) simp
  then show ?thesis by simp
qed

lemma normUp_bound: "1 \<le> x \<Longrightarrow> e \<le> normUp x e \<and> 2 powi (normUp x e - e) \<le> x"
proof (induction x e rule: normUp.induct)
  case (1 x e)
  show ?case
  proof (cases "x < 2")
    case True
    with 1 show ?thesis by (simp add: normUp.simps [of x e])
  next
    case False
    then have h: "1 \<le> x / 2" by simp
    from 1(1) [OF False h] have a: "e + 1 \<le> normUp (x / 2) (e + 1)"
      and b: "2 powi (normUp (x / 2) (e + 1) - (e + 1)) \<le> x / 2" by simp_all
    have "normUp (x / 2) (e + 1) - e = (normUp (x / 2) (e + 1) - (e + 1)) + 1" by simp
    then have "(2::real) powi (normUp (x / 2) (e + 1) - e)
                 = 2 * 2 powi (normUp (x / 2) (e + 1) - (e + 1))"
      by (simp only: powi_Suc)
    with a b False show ?thesis by (simp add: normUp.simps [of x e])
  qed
qed

lemma normDown_bound:
  "x < 2 \<Longrightarrow> normDown x e \<le> e \<and> x * 2 powi (e - normDown x e) < 2"
proof (induction x e rule: normDown.induct)
  case (1 x e)
  show ?case
  proof (cases "1 \<le> x \<or> e \<le> - 1022")
    case True
    with 1(2) show ?thesis by (simp add: normDown.simps [of x e])
  next
    case False
    then have h: "2 * x < 2" by simp
    from 1(1) [OF False h] have a: "normDown (2 * x) (e - 1) \<le> e - 1"
      and b: "2 * x * 2 powi (e - 1 - normDown (2 * x) (e - 1)) < 2" by simp_all
    have "e - normDown (2 * x) (e - 1) = (e - 1 - normDown (2 * x) (e - 1)) + 1" by simp
    then have "(2::real) powi (e - normDown (2 * x) (e - 1))
                 = 2 * 2 powi (e - 1 - normDown (2 * x) (e - 1))"
      by (simp only: powi_Suc)
    with a b False show ?thesis
      by (simp add: normDown.simps [of x e] mult.assoc mult.left_commute)
  qed
qed

lemma binary64_magnitude:
  assumes "d \<noteq> 0"
  shows "\<bar>binary64 d\<bar> =
     of_int (roundTiesToEven
               (\<bar>d\<bar> / 2 powi ((if 1 \<le> \<bar>d\<bar> then normUp \<bar>d\<bar> 0 else normDown \<bar>d\<bar> 0) - 52)))
       * 2 powi ((if 1 \<le> \<bar>d\<bar> then normUp \<bar>d\<bar> 0 else normDown \<bar>d\<bar> 0) - 52)"
proof -
  define u :: real
    where "u = 2 powi ((if 1 \<le> \<bar>d\<bar> then normUp \<bar>d\<bar> 0 else normDown \<bar>d\<bar> 0) - 52)"
  have u: "0 < u" by (simp add: u_def)
  then have "0 \<le> \<bar>d\<bar> / u" by simp
  then have "0 \<le> \<lfloor>\<bar>d\<bar> / u\<rfloor>" by (simp only: zero_le_floor)
  from this roundTiesToEven_bounds(1) [of "\<bar>d\<bar> / u"]
  have m: "0 \<le> roundTiesToEven (\<bar>d\<bar> / u)"
    by (rule order_trans)
  from assms have "binary64 d = sgn d * (of_int (roundTiesToEven (\<bar>d\<bar> / u)) * u)"
    by (simp add: binary64_def Let_def u_def)
  with m u assms have "\<bar>binary64 d\<bar> = of_int (roundTiesToEven (\<bar>d\<bar> / u)) * u"
    by (simp add: abs_mult abs_sgn_eq)
  then show ?thesis by (simp only: u_def)
qed

text \<open>
  The rounded value is below 2 exactly when the real is below \<open>2 - 1 / 2 ^ 53\<close>, the
  midpoint of 2 and the binary64 value before it: the midpoint itself is a tie, and of
  the two neighbours 2 has the even significand.
\<close>

lemma binary64_abs_less_2: "\<bar>binary64 d\<bar> < 2 \<longleftrightarrow> \<bar>d\<bar> < 2 - 1 / 2 ^ 53"
proof (cases "d = 0")
  case True
  then show ?thesis by (simp add: binary64_def)
next
  case False
  define a where "a = \<bar>d\<bar>"
  consider (big) "2 \<le> a" | (mid) "1 \<le> a" "a < 2" | (small) "a < 1" by linarith
  then show ?thesis
  proof cases
    case big
    define e where "e = normUp a 0"
    define u :: real where "u = 2 powi (e - 52)"
    define m where "m = roundTiesToEven (a / u)"
    have u0: "0 < u" by (simp add: u_def)
    from big have h: "1 \<le> a / 2" by simp
    from big have "e = normUp (a / 2) 1" by (simp add: e_def normUp.simps [of a 0])
    with normUp_bound [OF h, of 1] have e1: "1 \<le> e" by simp
    from big normUp_bound [of a 0] have p: "2 powi e \<le> a" by (simp add: e_def)
    with powi_shift [of e] have "2 ^ 52 * u \<le> a" by (simp add: u_def mult.commute)
    with u0 have "2 ^ 52 \<le> a / u" by (simp add: pos_le_divide_eq)
    then have "of_int (2 ^ 52) \<le> a / u" by simp
    then have "2 ^ 52 \<le> \<lfloor>a / u\<rfloor>" by (simp only: le_floor_iff)
    from this roundTiesToEven_bounds(1) [of "a / u"] have "2 ^ 52 \<le> m"
      unfolding m_def by (rule order_trans)
    then have "(of_int (2 ^ 52) :: real) \<le> of_int m" by (simp only: of_int_le_iff)
    then have "(2::real) ^ 52 \<le> of_int m" by simp
    with u0 have "2 ^ 52 * u \<le> of_int m * u" by (simp only: mult_le_cancel_right_pos)
    with powi_shift [of e] have "2 powi e \<le> of_int m * u" by (simp add: u_def mult.commute)
    moreover have "(2::real) powi 1 \<le> 2 powi e"
      by (rule power_int_increasing [OF e1]) simp
    ultimately have "2 \<le> of_int m * u" by simp
    with binary64_magnitude [OF False] big have "2 \<le> \<bar>binary64 d\<bar>"
      by (simp add: a_def e_def u_def m_def)
    with big show ?thesis by (simp add: a_def)
  next
    case mid
    have e: "normUp a 0 = 0" using mid by (simp add: normUp.simps [of a 0])
    have u: "(2::real) powi (0 - 52) = 1 / 2 ^ 52" by (simp add: power_int_minus field_simps)
    from binary64_magnitude [OF False] mid e u
    have "\<bar>binary64 d\<bar> = of_int (roundTiesToEven (a * 2 ^ 52)) / 2 ^ 52"
      by (simp add: a_def)
    then have "\<bar>binary64 d\<bar> < 2
                 \<longleftrightarrow> (of_int (roundTiesToEven (a * 2 ^ 52)) :: real) / 2 ^ 52 < 2"
      by (simp only:)
    also have "\<dots> \<longleftrightarrow> roundTiesToEven (a * 2 ^ 52) < 2 ^ 53"
      by simp
    also have "\<dots> \<longleftrightarrow> a * 2 ^ 52 < of_int (2 ^ 53) - 1 / 2"
      by (rule roundTiesToEven_less_iff) simp
    also have "\<dots> \<longleftrightarrow> a < 2 - 1 / 2 ^ 53" by (simp add: field_simps)
    finally show ?thesis by (simp only: a_def)
  next
    case small
    define e where "e = normDown a 0"
    define u :: real where "u = 2 powi (e - 52)"
    define m where "m = roundTiesToEven (a / u)"
    have u0: "0 < u" by (simp add: u_def)
    from small have "e = normDown (2 * a) (- 1)" by (simp add: e_def normDown.simps [of a 0])
    with normDown_bound [of "2 * a" "- 1"] small have e1: "e \<le> - 1" by simp
    from small normDown_bound [of a 0] have p: "a * 2 powi (- e) < 2" by (simp add: e_def)
    have "(2::real) powi (e + - e) = 2 powi e * 2 powi (- e)" by (rule power_int_add) simp
    then have inv: "2 powi e * 2 powi (- e) = (1::real)" by simp
    have "a = a * (2 powi e * 2 powi (- e))" by (simp only: inv mult_1_right)
    also have "\<dots> = (a * 2 powi (- e)) * 2 powi e" by (simp only: mult_ac)
    also have "\<dots> < 2 * 2 powi e"
      using p by (simp only: mult_less_cancel_right_pos zero_less_power_int zero_less_numeral)
    also have "\<dots> = 2 * (u * 2 ^ 52)" by (simp only: u_def powi_shift)
    also have "\<dots> = 2 ^ 53 * u" by simp
    finally have "a / u < 2 ^ 53" using u0 by (simp add: pos_divide_less_eq)
    then have "a / u < of_int (2 ^ 53)" by simp
    then have "\<lfloor>a / u\<rfloor> < 2 ^ 53" by (simp only: floor_less_iff)
    with roundTiesToEven_bounds(2) [of "a / u"] have "m \<le> 2 ^ 53"
      unfolding m_def by linarith
    then have "(of_int m :: real) \<le> of_int (2 ^ 53)" by (simp only: of_int_le_iff)
    then have "of_int m \<le> (2::real) ^ 53" by simp
    with u0 have "of_int m * u \<le> 2 ^ 53 * u" by (simp only: mult_le_cancel_right_pos)
    also have "\<dots> = 2 * (u * 2 ^ 52)" by simp
    also have "\<dots> = 2 powi 1 * 2 powi e" by (simp only: u_def powi_shift) simp
    also have "\<dots> = 2 powi (1 + e)" by (rule power_int_add [symmetric]) simp
    also have "\<dots> \<le> 2 powi 0"
      by (rule power_int_increasing) (use e1 in simp_all)
    finally have "of_int m * u \<le> 1" by simp
    with binary64_magnitude [OF False] small have "\<bar>binary64 d\<bar> \<le> 1"
      by (simp add: a_def e_def u_def m_def)
    moreover have "(1::real) / 2 ^ 53 < 1" by simp
    ultimately show ?thesis using small by (simp add: a_def)
  qed
qed

text \<open>\<open>getOrientation\<close> in terms of the exact differences of the coordinates.\<close>

lemma getOrientation_exact:
  "getOrientation p1 p2 =
     (if \<bar>pt_x p1 - pt_x p2\<bar> < 2 - 1 / 2 ^ 53 then Vertical
      else if \<bar>pt_y p1 - pt_y p2\<bar> < 2 - 1 / 2 ^ 53 then Horizontal
      else Diagonal)"
  by (simp only: getOrientation_def binary64_abs_less_2)

subsection \<open>Orientation\<close>

text \<open>
  Claim C6, as stated: every pair of points whose coordinates differ by less than 2 on
  both axes is vertical. The points (2, 0) and (1 / 2 ^ 60, 0) have binary64 coordinates
  that differ by less than 2 on both axes, but the difference of the \<open>x\<close> is rounded to 2,
  the vertical test fails, and the pair is horizontal.
\<close>

theorem getOrientation_near_aligned_counterexample:
  "binary64 2 = 2 \<and> binary64 (1 / 2 ^ 60) = 1 / 2 ^ 60 \<and> binary64 0 = 0
   \<and> \<bar>pt_x \<lparr>pt_x = 2, pt_y = 0\<rparr> - pt_x \<lparr>pt_x = 1 / 2 ^ 60, pt_y = 0\<rparr>\<bar> < 2
   \<and> \<bar>pt_y \<lparr>pt_x = 2, pt_y = 0\<rparr> - pt_y \<lparr>pt_x = 1 / 2 ^ 60, pt_y = 0\<rparr>\<bar> < 2
   \<and> binary64 (2 - 1 / 2 ^ 60) = 2
   \<and> getOrientation \<lparr>pt_x = 2, pt_y = 0\<rparr> \<lparr>pt_x = 1 / 2 ^ 60, pt_y = 0\<rparr> = Horizontal"
proof -
  have "binary64 2 = 2" by code_simp
  moreover have "binary64 (1 / 2 ^ 60) = 1 / 2 ^ 60" by code_simp
  moreover have "binary64 0 = 0" by (simp add: binary64_def)
  moreover have "binary64 (2 - 1 / 2 ^ 60) = 2" by code_simp
  moreover have "getOrientation \<lparr>pt_x = 2, pt_y = 0\<rparr> \<lparr>pt_x = 1 / 2 ^ 60, pt_y = 0\<rparr> = Horizontal"
    by (simp add: getOrientation_exact)
  ultimately show ?thesis by simp
qed

text \<open>
  Claim C6, amended. \<open>getOrientation\<close> classifies (0,0)-(0,5) as vertical, (0,0)-(5,0) as
  horizontal, (0,0)-(5,5) as diagonal and (0,0)-(1,1) as vertical. In general, every pair
  of points whose computed differences \<open>p1.x - p2.x\<close> and \<open>p1.y - p2.y\<close> are below 2 in
  absolute value on both axes is vertical, because the vertical test is checked first;
  the computed difference is below 2 exactly when the exact difference is below
  \<open>2 - 1 / 2 ^ 53\<close>.
\<close>

theorem getOrientation_classification:
  "getOrientation \<lparr>pt_x = 0, pt_y = 0\<rparr> \<lparr>pt_x = 0, pt_y = 5\<rparr> = Vertical
   \<and> getOrientation \<lparr>pt_x = 0, pt_y = 0\<rparr> \<lparr>pt_x = 5, pt_y = 0\<rparr> = Horizontal
   \<and> getOrientation \<lparr>pt_x = 0, pt_y = 0\<rparr> \<lparr>pt_x = 5, pt_y = 5\<rparr> = Diagonal
   \<and> getOrientation \<lparr>pt_x = 0, pt_y = 0\<rparr> \<lparr>pt_x = 1, pt_y = 1\<rparr> = Vertical
   \<and> (\<forall>p q. \<bar>binary64 (pt_x p - pt_x q)\<bar> < 2 \<and> \<bar>binary64 (pt_y p - pt_y q)\<bar> < 2
              \<longrightarrow> getOrientation p q = Vertical)
   \<and> (\<forall>p q. \<bar>pt_x p - pt_x q\<bar> < 2 - 1 / 2 ^ 53 \<and> \<bar>pt_y p - pt_y q\<bar> < 2 - 1 / 2 ^ 53
              \<longrightarrow> getOrientation p q = Vertical)
   \<and> (\<forall>d. \<bar>binary64 d\<bar> < 2 \<longleftrightarrow> \<bar>d\<bar> < 2 - 1 / 2 ^ 53)"
proof -
  have "\<forall>p q. \<bar>binary64 (pt_x p - pt_x q)\<bar> < 2 \<and> \<bar>binary64 (pt_y p - pt_y q)\<bar> < 2
              \<longrightarrow> getOrientation p q = Vertical"
    by (simp add: getOrientation_def)
  moreover have "\<forall>d. \<bar>binary64 d\<bar> < 2 \<longleftrightarrow> \<bar>d\<bar> < 2 - 1 / 2 ^ 53"
    by (simp only: binary64_abs_less_2) simp
  ultimately show ?thesis by (simp add: getOrientation_exact)
qed

theorem getOrientation_classification_witness:
  "\<bar>pt_x \<lparr>pt_x = 3, pt_y = 7\<rparr> - pt_x \<lparr>pt_x = 4, pt_y = 6\<rparr>\<bar> < 2 - 1 / 2 ^ 53
   \<and> \<bar>pt_y \<lparr>pt_x = 3, pt_y = 7\<rparr> - pt_y \<lparr>pt_x = 4, pt_y = 6\<rparr>\<bar> < 2 - 1 / 2 ^ 53
   \<and> getOrientation \<lparr>pt_x = 3, pt_y = 7\<rparr> \<lparr>pt_x = 4, pt_y = 6\<rparr> = Vertical"
proof -
  have h: "\<bar>pt_x \<lparr>pt_x = 3, pt_y = 7\<rparr> - pt_x \<lparr>pt_x = 4, pt_y = 6\<rparr>\<bar> < 2 - 1 / 2 ^ 53
           \<and> \<bar>pt_y \<lparr>pt_x = 3, pt_y = 7\<rparr> - pt_y \<lparr>pt_x = 4, pt_y = 6\<rparr>\<bar> < 2 - 1 / 2 ^ 53"
    by simp
  from getOrientation_classification
  have "\<forall>p q. \<bar>pt_x p - pt_x q\<bar> < 2 - 1 / 2 ^ 53 \<and> \<bar>pt_y p - pt_y q\<bar> < 2 - 1 / 2 ^ 53
              \<longrightarrow> getOrientation p q = Vertical"
    by (elim conjE)
  with h have "getOrientation \<lparr>pt_x = 3, pt_y = 7\<rparr> \<lparr>pt_x = 4, pt_y = 6\<rparr> = Vertical"
    by blast
  with h show ?thesis by blast
qed

subsection \<open>Segment collision\<close>


lemma checkIntervalOverlap_iff:
  "checkIntervalOverlap min1 max1 min2 max2 \<longleftrightarrow> 2 < min max1 max2 - max min1 min2"
  unfolding checkIntervalOverlap_def by linarith

lemma checkIntervalOverlap_abutting:
  "max1 \<le> min2 \<Longrightarrow> \<not> checkIntervalOverlap min1 max1 min2 max2"
  unfolding checkIntervalOverlap_def by linarith

text \<open>
  Claim C7. Two horizontal segments at the same Y whose X-ranges only abut (such as
  [0,10] and [10,20]) do not collide; more generally, horizontal segments whose X-ranges
  do not overlap never collide, and whenever two segments collide they have the same
  orientation, which is not diagonal, and their projections on the aligned axis overlap
  by strictly more than 2 units.
\<close>

theorem checkSegmentCollision_overlap:
  "\<not> checkSegmentCollision
        \<lparr>seg_connectionId = c1, seg_p1 = \<lparr>pt_x = 0, pt_y = y0\<rparr>,
         seg_p2 = \<lparr>pt_x = 10, pt_y = y0\<rparr>, seg_orientation = Horizontal\<rparr>
        \<lparr>seg_connectionId = c2, seg_p1 = \<lparr>pt_x = 10, pt_y = y0\<rparr>,
         seg_p2 = \<lparr>pt_x = 20, pt_y = y0\<rparr>, seg_orientation = Horizontal\<rparr> threshold
   \<and> (\<forall>s1 s2. seg_orientation s1 = Horizontal \<and> seg_orientation s2 = Horizontal
          \<and> max (pt_x (seg_p1 s1)) (pt_x (seg_p2 s1)) \<le> min (pt_x (seg_p1 s2)) (pt_x (seg_p2 s2))
          \<longrightarrow> \<not> checkSegmentCollision s1 s2 threshold)
   \<and> (\<forall>s1 s2. checkSegmentCollision s1 s2 threshold \<longrightarrow>
          seg_orientation s1 = seg_orientation s2 \<and> seg_orientation s1 \<noteq> Diagonal
          \<and> (seg_orientation s1 = Horizontal \<longrightarrow>
                min (max (pt_x (seg_p1 s1)) (pt_x (seg_p2 s1))) (max (pt_x (seg_p1 s2)) (pt_x (seg_p2 s2)))
                - max (min (pt_x (seg_p1 s1)) (pt_x (seg_p2 s1))) (min (pt_x (seg_p1 s2)) (pt_x (seg_p2 s2)))
                > 2)
          \<and> (seg_orientation s1 = Vertical \<longrightarrow>
                min (max (pt_y (seg_p1 s1)) (pt_y (seg_p2 s1))) (max (pt_y (seg_p1 s2)) (pt_y (seg_p2 s2)))
                - max (min (pt_y (seg_p1 s1)) (pt_y (seg_p2 s1))) (min (pt_y (seg_p1 s2)) (pt_y (seg_p2 s2)))
                > 2))"
proof (intro conjI allI impI)
  show "\<not> checkSegmentCollision
        \<lparr>seg_connectionId = c1, seg_p1 = \<lparr>pt_x = 0, pt_y = y0\<rparr>,
         seg_p2 = \<lparr>pt_x = 10, pt_y = y0\<rparr>, seg_orientation = Horizontal\<rparr>
        \<lparr>seg_connectionId = c2, seg_p1 = \<lparr>pt_x = 10, pt_y = y0\<rparr>,
         seg_p2 = \<lparr>pt_x = 20, pt_y = y0\<rparr>, seg_orientation = Horizontal\<rparr> threshold"
    by (simp add: checkSegmentCollision_def checkIntervalOverlap_def)
next
  fix s1 s2 :: Segment
  assume "seg_orientation s1 = Horizontal \<and> seg_orientation s2 = Horizontal
          \<and> max (pt_x (seg_p1 s1)) (pt_x (seg_p2 s1)) \<le> min (pt_x (seg_p1 s2)) (pt_x (seg_p2 s2))"
  then show "\<not> checkSegmentCollision s1 s2 threshold"
    unfolding checkSegmentCollision_def
    using checkIntervalOverlap_abutting
      [of "max (pt_x (seg_p1 s1)) (pt_x (seg_p2 s1))" "min (pt_x (seg_p1 s2)) (pt_x (seg_p2 s2))"]
    by presburger
next
  fix s1 s2 :: Segment
  assume c: "checkSegmentCollision s1 s2 threshold"
  then show "seg_orientation s1 = seg_orientation s2"
    by (simp add: checkSegmentCollision_def split: if_splits)
  from c show "seg_orientation s1 \<noteq> Diagonal"
    by (cases "seg_orientation s1") (simp_all add: checkSegmentCollision_def split: if_splits)
  { assume "seg_orientation s1 = Horizontal"
    with c show "min (max (pt_x (seg_p1 s1)) (pt_x (seg_p2 s1))) (max (pt_x (seg_p1 s2)) (pt_x (seg_p2 s2)))
                - max (min (pt_x (seg_p1 s1)) (pt_x (seg_p2 s1))) (min (pt_x (seg_p1 s2)) (pt_x (seg_p2 s2)))
                > 2"
      by (simp add: checkSegmentCollision_def checkIntervalOverlap_iff split: if_splits) }
  { assume "seg_orientation s1 = Vertical"
    with c show "min (max (pt_y (seg_p1 s1)) (pt_y (seg_p2 s1))) (max (pt_y (seg_p1 s2)) (pt_y (seg_p2 s2)))
                - max (min (pt_y (seg_p1 s1)) (pt_y (seg_p2 s1))) (min (pt_y (seg_p1 s2)) (pt_y (seg_p2 s2)))
                > 2"
      by (simp add: checkSegmentCollision_def checkIntervalOverlap_iff split: if_splits) }
qed

theorem checkSegmentCollision_overlap_witness:
  "checkSegmentCollision (hseg 0 10 0) (hseg 5 20 3) 5
   \<and> 2 < min (max (0::real) 10) (max 5 20) - max (min 0 10) (min 5 20)
   \<and> max (0::real) 10 \<le> min 10 20
   \<and> \<not> checkSegmentCollision (hseg 0 10 0) (hseg 10 20 0) 5"
proof -
  have c: "checkSegmentCollision (hseg 0 10 0) (hseg 5 20 3) 5"
    by (simp add: checkSegmentCollision_def checkIntervalOverlap_def)
  from checkSegmentCollision_overlap [of "[]" 0 "[]" 5]
  have g: "\<forall>s1 s2. checkSegmentCollision s1 s2 5 \<longrightarrow>
          seg_orientation s1 = seg_orientation s2 \<and> seg_orientation s1 \<noteq> Diagonal
          \<and> (seg_orientation s1 = Horizontal \<longrightarrow>
                min (max (pt_x (seg_p1 s1)) (pt_x (seg_p2 s1))) (max (pt_x (seg_p1 s2)) (pt_x (seg_p2 s2)))
                - max (min (pt_x (seg_p1 s1)) (pt_x (seg_p2 s1))) (min (pt_x (seg_p1 s2)) (pt_x (seg_p2 s2)))
                > 2)"
    by blast
  from g c have "2 < min (max (0::real) 10) (max 5 20) - max (min 0 10) (min 5 20)"
    by fastforce
  moreover have "max (0::real) 10 \<le> min 10 20" by simp
  moreover from checkSegmentCollision_overlap [of "[]" 0 "[]" 5]
  have "\<not> checkSegmentCollision (hseg 0 10 0) (hseg 10 20 0) 5" by blast
  ultimately show ?thesis using c by blast
qed

section \<open>Manhattan routing\<close>

text \<open>
  Claim C1, as stated: the route has exactly 5 points. The code pushes the exit point,
  two bend points and the entry point, which makes 4; the stated count fails on every
  input, for instance for a 100 x 80 source at (0,0) and a target at (300,40).
\<close>

theorem computeManhattanWaypoints_five_points_counterexample:
  "length (computeManhattanWaypoints 0 0 100 80 300 40 100 80) \<noteq> 5"
  by (simp add: computeManhattanWaypoints_def Let_def)

text \<open>
  Claim C1, amended. For every pair of boxes \<open>computeManhattanWaypoints\<close> returns exactly
  4 points: the first is the centre of the source's right edge, the last is the centre of
  the target's left edge, and between them lie two bend points with a common X (the
  midpoint between the source's right edge and the target's left edge when the target
  starts more than 20 units to the right of the source, and 20 units left of the target
  otherwise), the first at the height of the source's centre, the second at the height
  of the target's centre.
\<close>

theorem computeManhattanWaypoints_route:
  "length (computeManhattanWaypoints sx sy sw sh tx ty tw th) = 4
   \<and> hd (computeManhattanWaypoints sx sy sw sh tx ty tw th) = \<lparr>pt_x = sx + sw, pt_y = sy + sh / 2\<rparr>
   \<and> last (computeManhattanWaypoints sx sy sw sh tx ty tw th) = \<lparr>pt_x = tx, pt_y = ty + th / 2\<rparr>
   \<and> computeManhattanWaypoints sx sy sw sh tx ty tw th ! 1 =
       \<lparr>pt_x = (if tx > sx + sw + 20 then (sx + sw + tx) / 2 else tx - 20), pt_y = sy + sh / 2\<rparr>
   \<and> computeManhattanWaypoints sx sy sw sh tx ty tw th ! 2 =
       \<lparr>pt_x = (if tx > sx + sw + 20 then (sx + sw + tx) / 2 else tx - 20), pt_y = ty + th / 2\<rparr>"
  by (simp add: computeManhattanWaypoints_def Let_def)

section \<open>Parallel fan-out\<close>

lemma fold_update_length:
  "length (fold (\<lambda>i ws. ws[i := f (ws ! i)]) js ws) = length ws"
  by (induction js arbitrary: ws) simp_all

lemma fold_update_nth:
  "distinct js \<Longrightarrow> j < length ws \<Longrightarrow>
   fold (\<lambda>i ws. ws[i := f (ws ! i)]) js ws ! j = (if j \<in> set js then f (ws ! j) else ws ! j)"
proof (induction js arbitrary: ws)
  case Nil
  then show ?case by simp
next
  case (Cons a js)
  from Cons.prems have a: "a \<notin> set js" and d: "distinct js" by simp_all
  have "fold (\<lambda>i ws. ws[i := f (ws ! i)]) (a # js) ws ! j
        = fold (\<lambda>i ws. ws[i := f (ws ! i)]) js (ws[a := f (ws ! a)]) ! j" by simp
  also have "\<dots> = (if j \<in> set js then f (ws[a := f (ws ! a)] ! j) else ws[a := f (ws ! a)] ! j)"
    using Cons.IH [OF d, of "ws[a := f (ws ! a)]"] Cons.prems(2) by simp
  also have "\<dots> = (if j \<in> set (a # js) then f (ws ! j) else ws ! j)"
    using a Cons.prems(2) by (cases "j = a") auto
  finally show ?case .
qed

lemma applyDriftToWaypoints_length:
  "length (applyDriftToWaypoints ws off) = length ws"
  by (simp add: applyDriftToWaypoints_def fold_update_length)

lemma applyDriftToWaypoints_nth:
  "i < length ws \<Longrightarrow>
   applyDriftToWaypoints ws off ! i =
     (if 2 \<le> i \<and> i < length ws - 1 then shiftY off (ws ! i) else ws ! i)"
  by (simp add: applyDriftToWaypoints_def fold_update_nth)

lemma map_copy_point: "map (\<lambda>w. \<lparr>pt_x = pt_x w, pt_y = pt_y w\<rparr>) ws = ws"
  by (induction ws) simp_all

lemma fold_nudge_parallel:
  "\<forall>other \<in> set others. isParallel t other \<Longrightarrow> fold (nudgeStep t constants) others st = st"
  by (induction others arbitrary: st) (simp_all add: nudgeStep_def)

lemma three_parallel:
  fixes key :: "string \<Rightarrow> 'k::linorder"
  assumes k: "key (cn_id a) < key (cn_id b)" "key (cn_id b) < key (cn_id c)"
  shows "parallelFanOffset key a [b, c] constants = - parallelOffset constants"
    and "parallelFanOffset key a [c, b] constants = - parallelOffset constants"
    and "parallelFanOffset key b [a, c] constants = 0"
    and "parallelFanOffset key b [c, a] constants = 0"
    and "parallelFanOffset key c [a, b] constants = parallelOffset constants"
    and "parallelFanOffset key c [b, a] constants = parallelOffset constants"
proof -
  from k have ac: "key (cn_id a) < key (cn_id c)" by simp
  from k ac have ne: "cn_id a \<noteq> cn_id b" "cn_id b \<noteq> cn_id c" "cn_id a \<noteq> cn_id c" by auto
  from k ac have le: "key (cn_id a) \<le> key (cn_id b)" "key (cn_id b) \<le> key (cn_id c)"
     "key (cn_id a) \<le> key (cn_id c)" "\<not> key (cn_id b) \<le> key (cn_id a)"
     "\<not> key (cn_id c) \<le> key (cn_id b)" "\<not> key (cn_id c) \<le> key (cn_id a)" by auto
  show "parallelFanOffset key a [b, c] constants = - parallelOffset constants"
    using ne le by (simp add: parallelFanOffset_def)
  show "parallelFanOffset key a [c, b] constants = - parallelOffset constants"
    using ne le by (simp add: parallelFanOffset_def)
  show "parallelFanOffset key b [a, c] constants = 0"
    using ne le by (simp add: parallelFanOffset_def)
  show "parallelFanOffset key b [c, a] constants = 0"
    using ne le by (simp add: parallelFanOffset_def)
  show "parallelFanOffset key c [a, b] constants = parallelOffset constants"
    using ne le by (simp add: parallelFanOffset_def)
  show "parallelFanOffset key c [b, a] constants = parallelOffset constants"
    using ne le by (simp add: parallelFanOffset_def)
qed


lemma isParallel_sym: "isParallel a b \<Longrightarrow> isParallel b a"
  by (auto simp: isParallel_def)

lemma computeResolvedWaypoints_all_parallel:
  assumes "others \<noteq> []" and "\<forall>other \<in> set others. isParallel t other"
    and "2 \<le> length (cn_waypoints t)"
  shows "computeResolvedWaypoints key t others constants =
    (if \<bar>parallelFanOffset key t others constants\<bar> > 1
     then (applyDriftToWaypoints (cn_waypoints t) (parallelFanOffset key t others constants), True)
     else (cn_waypoints t, False))"
proof -
  from assms(2) have f: "filter (isParallel t) others = others" by simp
  from assms(1) have l: "0 < length others" by simp
  show ?thesis
    using assms(3) l
    by (simp add: computeResolvedWaypoints_def map_copy_point f Let_def
          fold_nudge_parallel [OF assms(2)])
qed

text \<open>
  Claim C5. Let three connectors share the same unordered (source, target) pair, with
  identifiers in strictly increasing collation order, and let \<open>parallelOffset = 18\<close>. Then
  the offsets computed for them (each against the two others, in either order) are -18,
  0 and 18. With at least 2 waypoints the first and the third come back shifted by their
  offset and marked updated, the second comes back as it was. A shift by
  \<open>applyDriftToWaypoints\<close> keeps the number of waypoints, adds the offset to the Y of the
  waypoints from index 2 to the second-to-last, and leaves every X, the first two
  waypoints and the last waypoint as they were.
\<close>

theorem parallel_fan_out:
  fixes key :: "string \<Rightarrow> 'k::linorder"
  assumes po: "parallelOffset constants = 18"
    and k: "key (cn_id a) < key (cn_id b)" "key (cn_id b) < key (cn_id c)"
    and par: "isParallel a b" "isParallel a c" "isParallel b c"
    and oa: "oa = [b, c] \<or> oa = [c, b]"
    and ob: "ob = [a, c] \<or> ob = [c, a]"
    and oc: "oc = [a, b] \<or> oc = [b, a]"
  shows "parallelFanOffset key a (filter (isParallel a) oa) constants = -18
       \<and> parallelFanOffset key b (filter (isParallel b) ob) constants = 0
       \<and> parallelFanOffset key c (filter (isParallel c) oc) constants = 18
       \<and> (2 \<le> length (cn_waypoints a) \<longrightarrow> computeResolvedWaypoints key a oa constants
             = (applyDriftToWaypoints (cn_waypoints a) (-18), True))
       \<and> (2 \<le> length (cn_waypoints b) \<longrightarrow> computeResolvedWaypoints key b ob constants
             = (cn_waypoints b, False))
       \<and> (2 \<le> length (cn_waypoints c) \<longrightarrow> computeResolvedWaypoints key c oc constants
             = (applyDriftToWaypoints (cn_waypoints c) 18, True))
       \<and> (\<forall>ws offset. length (applyDriftToWaypoints ws offset) = length ws
            \<and> (\<forall>i < length ws. applyDriftToWaypoints ws offset ! i =
                  (if 2 \<le> i \<and> i < length ws - 1
                   then \<lparr>pt_x = pt_x (ws ! i), pt_y = pt_y (ws ! i) + offset\<rparr>
                   else ws ! i)))"
proof -
  note par' = par par [THEN isParallel_sym]
  have pa: "\<forall>other \<in> set oa. isParallel a other" using oa par' by auto
  have pb: "\<forall>other \<in> set ob. isParallel b other" using ob par' by auto
  have pc: "\<forall>other \<in> set oc. isParallel c other" using oc par' by auto
  have fa: "parallelFanOffset key a oa constants = -18"
    using oa three_parallel(1,2) [OF k, of constants] po by auto
  have fb: "parallelFanOffset key b ob constants = 0"
    using ob three_parallel(3,4) [OF k, of constants] po by auto
  have fc: "parallelFanOffset key c oc constants = 18"
    using oc three_parallel(5,6) [OF k, of constants] po by auto
  have nea: "oa \<noteq> []" and neb: "ob \<noteq> []" and nec: "oc \<noteq> []"
    using oa ob oc by auto
  have 1: "parallelFanOffset key a (filter (isParallel a) oa) constants = -18"
    using pa fa by simp
  have 2: "parallelFanOffset key b (filter (isParallel b) ob) constants = 0"
    using pb fb by simp
  have 3: "parallelFanOffset key c (filter (isParallel c) oc) constants = 18"
    using pc fc by simp
  have 4: "2 \<le> length (cn_waypoints a) \<longrightarrow> computeResolvedWaypoints key a oa constants
             = (applyDriftToWaypoints (cn_waypoints a) (-18), True)"
    using computeResolvedWaypoints_all_parallel [OF nea pa, of key constants] fa by simp
  have 5: "2 \<le> length (cn_waypoints b) \<longrightarrow> computeResolvedWaypoints key b ob constants
             = (cn_waypoints b, False)"
    using computeResolvedWaypoints_all_parallel [OF neb pb, of key constants] fb by simp
  have 6: "2 \<le> length (cn_waypoints c) \<longrightarrow> computeResolvedWaypoints key c oc constants
             = (applyDriftToWaypoints (cn_waypoints c) 18, True)"
    using computeResolvedWaypoints_all_parallel [OF nec pc, of key constants] fc by simp
  have 7: "\<forall>ws offset. length (applyDriftToWaypoints ws offset) = length ws
            \<and> (\<forall>i < length ws. applyDriftToWaypoints ws offset ! i =
                  (if 2 \<le> i \<and> i < length ws - 1
                   then \<lparr>pt_x = pt_x (ws ! i), pt_y = pt_y (ws ! i) + offset\<rparr>
                   else ws ! i))"
    by (simp add: applyDriftToWaypoints_length applyDriftToWaypoints_nth shiftY_def)
  from 1 2 3 4 5 6 7 show ?thesis by blast
qed

theorem parallel_fan_out_witness:
  "parallelOffset DEFAULT_LAYOUT_CONSTANTS = 18
   \<and> cn_id (flow ''Flow_1'') < cn_id (flow ''Flow_2'')
   \<and> cn_id (flow ''Flow_2'') < cn_id (flow ''Flow_3'')
   \<and> isParallel (flow ''Flow_1'') (flow ''Flow_2'')
   \<and> isParallel (flow ''Flow_1'') (flow ''Flow_3'')
   \<and> isParallel (flow ''Flow_2'') (flow ''Flow_3'')
   \<and> 2 \<le> length (cn_waypoints (flow ''Flow_1''))
   \<and> computeResolvedWaypoints (\<lambda>s. s) (flow ''Flow_1'') [flow ''Flow_3'', flow ''Flow_2'']
        DEFAULT_LAYOUT_CONSTANTS
       = ([\<lparr>pt_x = 100, pt_y = 40\<rparr>, \<lparr>pt_x = 200, pt_y = 40\<rparr>, \<lparr>pt_x = 200, pt_y = 122\<rparr>,
           \<lparr>pt_x = 250, pt_y = 122\<rparr>, \<lparr>pt_x = 300, pt_y = 140\<rparr>], True)
   \<and> computeResolvedWaypoints (\<lambda>s. s) (flow ''Flow_2'') [flow ''Flow_1'', flow ''Flow_3'']
        DEFAULT_LAYOUT_CONSTANTS
       = (wpsA, False)
   \<and> computeResolvedWaypoints (\<lambda>s. s) (flow ''Flow_3'') [flow ''Flow_1'', flow ''Flow_2'']
        DEFAULT_LAYOUT_CONSTANTS
       = ([\<lparr>pt_x = 100, pt_y = 40\<rparr>, \<lparr>pt_x = 200, pt_y = 40\<rparr>, \<lparr>pt_x = 200, pt_y = 158\<rparr>,
           \<lparr>pt_x = 250, pt_y = 158\<rparr>, \<lparr>pt_x = 300, pt_y = 140\<rparr>], True)"
proof -
  have po: "parallelOffset DEFAULT_LAYOUT_CONSTANTS = 18"
    by (simp add: DEFAULT_LAYOUT_CONSTANTS_def)
  have k: "cn_id (flow ''Flow_1'') < cn_id (flow ''Flow_2'')"
          "cn_id (flow ''Flow_2'') < cn_id (flow ''Flow_3'')"
    by (simp_all add: flow_def)
  have par: "isParallel (flow ''Flow_1'') (flow ''Flow_2'')"
            "isParallel (flow ''Flow_1'') (flow ''Flow_3'')"
            "isParallel (flow ''Flow_2'') (flow ''Flow_3'')"
    by (simp_all add: flow_def isParallel_def)
  have len: "2 \<le> length (cn_waypoints (flow i))" for i
    by (simp add: flow_def wpsA_def)
  have drift: "applyDriftToWaypoints wpsA off
       = [\<lparr>pt_x = 100, pt_y = 40\<rparr>, \<lparr>pt_x = 200, pt_y = 40\<rparr>, \<lparr>pt_x = 200, pt_y = 140 + off\<rparr>,
           \<lparr>pt_x = 250, pt_y = 140 + off\<rparr>, \<lparr>pt_x = 300, pt_y = 140\<rparr>]" for off
    by (simp add: applyDriftToWaypoints_def wpsA_def shiftY_def upt_rec)
  have w: "cn_waypoints (flow i) = wpsA" for i by (simp add: flow_def)
  from parallel_fan_out [where key = "\<lambda>s. s", OF po k par,
      of "[flow ''Flow_3'', flow ''Flow_2'']" "[flow ''Flow_1'', flow ''Flow_3'']"
         "[flow ''Flow_1'', flow ''Flow_2'']"]
  have "computeResolvedWaypoints (\<lambda>s. s) (flow ''Flow_1'') [flow ''Flow_3'', flow ''Flow_2'']
        DEFAULT_LAYOUT_CONSTANTS = (applyDriftToWaypoints wpsA (-18), True)
     \<and> computeResolvedWaypoints (\<lambda>s. s) (flow ''Flow_2'') [flow ''Flow_1'', flow ''Flow_3'']
        DEFAULT_LAYOUT_CONSTANTS = (wpsA, False)
     \<and> computeResolvedWaypoints (\<lambda>s. s) (flow ''Flow_3'') [flow ''Flow_1'', flow ''Flow_2'']
        DEFAULT_LAYOUT_CONSTANTS = (applyDriftToWaypoints wpsA 18, True)"
    using len w by simp
  then show ?thesis using po k par len by (simp add: drift)
qed

section \<open>Idempotence of collision resolution\<close>

lemma checkSegmentCollision_sym:
  "checkSegmentCollision s1 s2 th = checkSegmentCollision s2 s1 th"
  by (auto simp: checkSegmentCollision_def checkIntervalOverlap_def max.commute min.commute
        abs_minus_commute)

lemma checkSegmentCollision_geometry:
  "seg_p1 s1 = seg_p1 s1' \<Longrightarrow> seg_p2 s1 = seg_p2 s1' \<Longrightarrow> seg_orientation s1 = seg_orientation s1'
   \<Longrightarrow> seg_p1 s2 = seg_p1 s2' \<Longrightarrow> seg_p2 s2 = seg_p2 s2' \<Longrightarrow> seg_orientation s2 = seg_orientation s2'
   \<Longrightarrow> checkSegmentCollision s1 s2 th = checkSegmentCollision s1' s2' th"
  by (simp add: checkSegmentCollision_def)

lemma detectCollisions_empty:
  "detectCollisions segs th = [] \<Longrightarrow> s1 \<in> set segs \<Longrightarrow> s2 \<in> set segs
   \<Longrightarrow> seg_connectionId s1 \<noteq> seg_connectionId s2 \<Longrightarrow> \<not> checkSegmentCollision s1 s2 th"
proof (induction segs)
  case Nil
  then show ?case by simp
next
  case (Cons x rest)
  from Cons.prems(1) have
    f: "\<forall>y \<in> set rest. \<not> (seg_connectionId x \<noteq> seg_connectionId y \<and> checkSegmentCollision x y th)"
    and r: "detectCollisions rest th = []"
    by (simp_all add: filter_empty_conv)
  consider "s1 = x" "s2 \<in> set rest" | "s1 \<in> set rest" "s2 = x" | "s1 \<in> set rest" "s2 \<in> set rest"
    using Cons.prems by auto
  then show ?case
  proof cases
    case 1
    with f Cons.prems(4) show ?thesis by blast
  next
    case 2
    with f Cons.prems(4) have "\<not> checkSegmentCollision x s1 th" by metis
    with 2 show ?thesis by (simp add: checkSegmentCollision_sym)
  next
    case 3
    with Cons.IH r Cons.prems(4) show ?thesis by blast
  qed
qed

lemma extractSegments_id: "s \<in> set (extractSegments i ws) \<Longrightarrow> seg_connectionId s = i"
  by (induction i ws rule: extractSegments.induct) auto

lemma overlapInner_None:
  "(\<forall>s2 \<in> set (extractSegments b qs).
      \<not> checkSegmentCollision \<lparr>seg_connectionId = a, seg_p1 = p1, seg_p2 = p2,
                                seg_orientation = getOrientation p1 p2\<rparr> s2 th)
   \<Longrightarrow> overlapInner (\<lambda>s1 s2. checkSegmentCollision s1 s2 th) i p1 p2 qs = None"
proof (induction b qs rule: extractSegments.induct)
  case (1 b q1 q2 qs)
  let ?s1 = "\<lparr>seg_connectionId = a, seg_p1 = p1, seg_p2 = p2,
               seg_orientation = getOrientation p1 p2\<rparr>"
  let ?s2 = "\<lparr>seg_connectionId = b, seg_p1 = q1, seg_p2 = q2,
               seg_orientation = getOrientation q1 q2\<rparr>"
  from 1(2) have n: "\<not> checkSegmentCollision ?s1 ?s2 th" by simp
  have "checkSegmentCollision
          \<lparr>seg_connectionId = [], seg_p1 = p1, seg_p2 = p2, seg_orientation = getOrientation p1 p2\<rparr>
          \<lparr>seg_connectionId = [], seg_p1 = q1, seg_p2 = q2, seg_orientation = getOrientation q1 q2\<rparr> th
        = checkSegmentCollision ?s1 ?s2 th"
    by (rule checkSegmentCollision_geometry) simp_all
  with n have n': "\<not> checkSegmentCollision
          \<lparr>seg_connectionId = [], seg_p1 = p1, seg_p2 = p2, seg_orientation = getOrientation p1 p2\<rparr>
          \<lparr>seg_connectionId = [], seg_p1 = q1, seg_p2 = q2, seg_orientation = getOrientation q1 q2\<rparr> th"
    by simp
  from 1 have ih: "overlapInner (\<lambda>s1 s2. checkSegmentCollision s1 s2 th) i p1 p2 (q2 # qs) = None"
    by simp
  show ?case using n' ih by (auto simp: Let_def)
qed simp_all

lemma overlapOuter_None:
  "(\<forall>s1 \<in> set (extractSegments a ps). \<forall>s2 \<in> set (extractSegments b qs).
      \<not> checkSegmentCollision s1 s2 th)
   \<Longrightarrow> overlapOuter (\<lambda>s1 s2. checkSegmentCollision s1 s2 th) i ps qs = None"
proof (induction a ps arbitrary: i rule: extractSegments.induct)
  case (1 a p1 p2 ps)
  from 1(2) have "overlapInner (\<lambda>s1 s2. checkSegmentCollision s1 s2 th) i p1 p2 qs = None"
    by (intro overlapInner_None [where a = a and b = b]) simp
  moreover from 1 have "overlapOuter (\<lambda>s1 s2. checkSegmentCollision s1 s2 th) (Suc i) (p2 # ps) qs = None"
    by simp
  ultimately show ?case by simp
qed simp_all


lemma fold_nudge_no_conflict:
  assumes "\<forall>other \<in> set others. \<forall>s1 \<in> set (extractSegments a ws).
             \<forall>s2 \<in> set (extractSegments (cn_id other) (cn_waypoints other)).
               \<not> checkSegmentCollision s1 s2 (collisionThreshold constants)"
  shows "fold (nudgeStep t constants) others (ws, u) = (ws, u)"
  using assms
proof (induction others)
  case Nil
  then show ?case by simp
next
  case (Cons other others)
  from Cons.prems have
    "overlapOuter (\<lambda>s1 s2. checkSegmentCollision s1 s2 (collisionThreshold constants)) 0 ws
       (cn_waypoints other) = None"
    by (intro overlapOuter_None [where a = a and b = "cn_id other"]) simp
  then have "nudgeStep t constants other (ws, u) = (ws, u)"
    by (simp add: nudgeStep_def checkConnectionOverlapDetails_def)
  with Cons show ?case by simp
qed

lemma computeResolvedWaypoints_no_conflict:
  assumes np: "\<forall>other \<in> set others. \<not> isParallel t other"
    and nc: "\<forall>other \<in> set others. \<forall>s1 \<in> set (extractSegments (cn_id t) (cn_waypoints t)).
             \<forall>s2 \<in> set (extractSegments (cn_id other) (cn_waypoints other)).
               \<not> checkSegmentCollision s1 s2 (collisionThreshold constants)"
  shows "computeResolvedWaypoints key t others constants = (cn_waypoints t, False)"
proof -
  from np have f: "filter (isParallel t) others = []" by (simp add: filter_empty_conv)
  show ?thesis
    by (simp add: computeResolvedWaypoints_def map_copy_point f Let_def
          fold_nudge_no_conflict [OF nc])
qed

lemma fold_resolveOne_unchanged:
  assumes "\<forall>conn \<in> set cs.
     \<not> snd (computeResolvedWaypoints key (asConnectionLike st conn)
            (map (asConnectionLike st) (filter (\<lambda>c. el_id (st c) \<noteq> el_id (st conn)) connections))
            constants)"
  shows "fold (resolveOne modeling key constants connections) cs (st, issued, b) = (st, issued, b)"
  using assms by (induction cs) (simp_all add: resolveOne_def)

text \<open>
  Claim C3, amended. Let the segments of the sequence flows be conflict-free
  (\<open>detectCollisions\<close> with the threshold of the constants in use reports nothing) and let
  no two sequence flows with different identifiers be parallel. Then, for every host,
  every pass limit and every collation, \<open>resolveEdgeCollisions\<close> issues no command and
  leaves the store as it is, and \<open>computeResolvedWaypoints\<close> returns for every sequence flow
  its own waypoints with \<open>updated = false\<close>.
\<close>

theorem resolveEdgeCollisions_conflict_free:
  fixes key :: "string \<Rightarrow> 'k::linorder"
  assumes cf: "detectCollisions (allSegments context) (collisionThreshold constants) = []"
    and np: "noParallelConnectors context"
  shows "resolveEdgeCollisions modeling key context maxPasses constants = (ctx_store context, [])
    \<and> (\<forall>conn \<in> set (registry_filter context (\<lambda>e. el_type e = ''bpmn:SequenceFlow'')).
         computeResolvedWaypoints key (asConnectionLike (ctx_store context) conn)
           (map (asConnectionLike (ctx_store context))
              (filter (\<lambda>c. el_id (ctx_store context c) \<noteq> el_id (ctx_store context conn))
                 (registry_filter context (\<lambda>e. el_type e = ''bpmn:SequenceFlow''))))
           constants
         = (el_waypoints (ctx_store context conn), False))"
proof -
  define st where "st = ctx_store context"
  define connections where
    "connections = registry_filter context (\<lambda>e. el_type e = ''bpmn:SequenceFlow'')"
  have segs: "set (extractSegments (el_id (st c)) (el_waypoints (st c))) \<subseteq> set (allSegments context)"
    if "c \<in> set connections" for c
    using that by (auto simp: allSegments_def connections_def st_def)
  have one: "computeResolvedWaypoints key (asConnectionLike st conn)
           (map (asConnectionLike st) (filter (\<lambda>c. el_id (st c) \<noteq> el_id (st conn)) connections))
           constants = (el_waypoints (st conn), False)"
    if conn: "conn \<in> set connections" for conn
  proof -
    let ?others = "map (asConnectionLike st) (filter (\<lambda>c. el_id (st c) \<noteq> el_id (st conn)) connections)"
    have a: "\<forall>other \<in> set ?others. \<not> isParallel (asConnectionLike st conn) other"
      using np conn
      by (auto simp: noParallelConnectors_def Let_def connections_def [symmetric] st_def [symmetric])
    have b: "\<forall>other \<in> set ?others.
             \<forall>s1 \<in> set (extractSegments (cn_id (asConnectionLike st conn))
                            (cn_waypoints (asConnectionLike st conn))).
             \<forall>s2 \<in> set (extractSegments (cn_id other) (cn_waypoints other)).
               \<not> checkSegmentCollision s1 s2 (collisionThreshold constants)"
    proof (intro ballI)
      fix other s1 s2
      assume o: "other \<in> set ?others"
        and s1: "s1 \<in> set (extractSegments (cn_id (asConnectionLike st conn))
                            (cn_waypoints (asConnectionLike st conn)))"
        and s2: "s2 \<in> set (extractSegments (cn_id other) (cn_waypoints other))"
      from o obtain d where d: "d \<in> set connections" "el_id (st d) \<noteq> el_id (st conn)"
        "other = asConnectionLike st d" by auto
      from s1 have s1': "s1 \<in> set (extractSegments (el_id (st conn)) (el_waypoints (st conn)))"
        by (simp add: asConnectionLike_def)
      from s2 d have s2': "s2 \<in> set (extractSegments (el_id (st d)) (el_waypoints (st d)))"
        by (simp add: asConnectionLike_def)
      from s1' segs [OF conn] have m1: "s1 \<in> set (allSegments context)" by blast
      from s2' segs [OF d(1)] have m2: "s2 \<in> set (allSegments context)" by blast
      from s1' s2' d(2) have "seg_connectionId s1 \<noteq> seg_connectionId s2"
        by (auto dest!: extractSegments_id)
      with cf m1 m2 show "\<not> checkSegmentCollision s1 s2 (collisionThreshold constants)"
        by (rule detectCollisions_empty)
    qed
    from computeResolvedWaypoints_no_conflict [OF a b, of key]
    show ?thesis by (simp add: asConnectionLike_def)
  qed
  have pass: "fold (resolveOne modeling key constants connections) connections (st, [], False)
        = (st, [], False)"
    by (rule fold_resolveOne_unchanged) (simp add: one)
  have "resolvePasses modeling key constants connections maxPasses (st, []) = (st, [])"
    by (cases maxPasses) (simp_all add: pass)
  then have "resolveEdgeCollisions modeling key context maxPasses constants = (ctx_store context, [])"
    by (simp add: resolveEdgeCollisions_def Let_def connections_def [symmetric] st_def [symmetric])
  with one show ?thesis
    by (simp add: connections_def [symmetric] st_def [symmetric])
qed

lemmas diagram_defs = parallelDiagram_def chainDiagram_def registry_filter_def
    storeOf_def sequenceFlow_def shape_def blankElement_def wpsA_def wpsB_def

theorem resolveEdgeCollisions_conflict_free_witness:
  "detectCollisions (allSegments chainDiagram) (collisionThreshold DEFAULT_LAYOUT_CONSTANTS) = []
   \<and> noParallelConnectors chainDiagram
   \<and> resolveEdgeCollisions specHost (\<lambda>s. s) chainDiagram 5 DEFAULT_LAYOUT_CONSTANTS
       = (ctx_store chainDiagram, [])"
proof -
  have cf: "detectCollisions (allSegments chainDiagram) (collisionThreshold DEFAULT_LAYOUT_CONSTANTS) = []"
    by (simp add: allSegments_def diagram_defs getOrientation_exact
      checkSegmentCollision_def checkIntervalOverlap_def DEFAULT_LAYOUT_CONSTANTS_def)
  have np: "noParallelConnectors chainDiagram"
    by (simp add: noParallelConnectors_def diagram_defs asConnectionLike_def isParallel_def)
  from resolveEdgeCollisions_conflict_free [OF cf np, of specHost "\<lambda>s. s" 5] cf np
  show ?thesis by simp
qed

text \<open>
  Claim C3, as stated: conflict-free waypoints alone give zero updates. Two parallel
  sequence flows whose routes are far apart are conflict-free, yet the fan-out shifts
  both in every pass: one pass issues two \<open>updateWaypoints\<close> commands, the default five
  passes issue ten.
\<close>

lemma parallel_cf: "service_detectCollisions parallelDiagram = []"
  by (simp add: service_detectCollisions_def allSegments_def diagram_defs getOrientation_exact
    checkSegmentCollision_def checkIntervalOverlap_def DEFAULT_LAYOUT_CONSTANTS_def)

theorem resolveEdgeCollisions_idempotence_counterexample:
  "service_detectCollisions parallelDiagram = []
   \<and> snd (resolveEdgeCollisions specHost (\<lambda>s. s) parallelDiagram 1 DEFAULT_LAYOUT_CONSTANTS)
     = [UpdateWaypoints 2
          [\<lparr>pt_x = 100, pt_y = 40\<rparr>, \<lparr>pt_x = 200, pt_y = 40\<rparr>, \<lparr>pt_x = 200, pt_y = 131\<rparr>,
           \<lparr>pt_x = 250, pt_y = 131\<rparr>, \<lparr>pt_x = 300, pt_y = 140\<rparr>],
        UpdateWaypoints 3
          [\<lparr>pt_x = 100, pt_y = 400\<rparr>, \<lparr>pt_x = 200, pt_y = 400\<rparr>, \<lparr>pt_x = 200, pt_y = 509\<rparr>,
           \<lparr>pt_x = 250, pt_y = 509\<rparr>, \<lparr>pt_x = 300, pt_y = 500\<rparr>]]
   \<and> length (snd (resolveEdgeCollisions specHost (\<lambda>s. s) parallelDiagram 5
                      DEFAULT_LAYOUT_CONSTANTS)) = 10"
proof -
  have five: "length (snd (resolveEdgeCollisions specHost (\<lambda>s. s) parallelDiagram 5
                      DEFAULT_LAYOUT_CONSTANTS)) = 10"
    by (simp add: resolveEdgeCollisions_def diagram_defs resolveOne_def asConnectionLike_def
          computeResolvedWaypoints_def isParallel_def parallelFanOffset_def nudgeStep_def
          applyDriftToWaypoints_def shiftY_def specHost_def DEFAULT_LAYOUT_CONSTANTS_def
          Let_def upt_rec eval_nat_numeral)
  have "snd (resolveEdgeCollisions specHost (\<lambda>s. s) parallelDiagram 1 DEFAULT_LAYOUT_CONSTANTS)
     = [UpdateWaypoints 2
          [\<lparr>pt_x = 100, pt_y = 40\<rparr>, \<lparr>pt_x = 200, pt_y = 40\<rparr>, \<lparr>pt_x = 200, pt_y = 131\<rparr>,
           \<lparr>pt_x = 250, pt_y = 131\<rparr>, \<lparr>pt_x = 300, pt_y = 140\<rparr>],
        UpdateWaypoints 3
          [\<lparr>pt_x = 100, pt_y = 400\<rparr>, \<lparr>pt_x = 200, pt_y = 400\<rparr>, \<lparr>pt_x = 200, pt_y = 509\<rparr>,
           \<lparr>pt_x = 250, pt_y = 509\<rparr>, \<lparr>pt_x = 300, pt_y = 500\<rparr>]]"
    by (simp add: resolveEdgeCollisions_def diagram_defs resolveOne_def asConnectionLike_def
          computeResolvedWaypoints_def isParallel_def parallelFanOffset_def nudgeStep_def
          applyDriftToWaypoints_def shiftY_def specHost_def DEFAULT_LAYOUT_CONSTANTS_def
          Let_def upt_rec)
  with parallel_cf five show ?thesis by simp
qed

section \<open>Frame: the resolver writes to its own copy only\<close>

lemma fold_heap_write:
  "fold (\<lambda>i h. h[ws ! i := f (h ! (ws ! i))]) js h
   = fold (\<lambda>a h. h[a := f (h ! a)]) (map (\<lambda>i. ws ! i) js) h"
  by (simp add: fold_map comp_def)

lemma applyDriftToWaypoints_h_length:
  "length (applyDriftToWaypoints_h h ws off) = length h"
  by (simp add: applyDriftToWaypoints_h_def fold_heap_write fold_update_length)

lemma distinct_map_nth_upt:
  "distinct ws \<Longrightarrow> n \<le> length ws \<Longrightarrow> distinct (map (\<lambda>i. ws ! i) [m..<n])"
  by (auto simp: distinct_map inj_on_def nth_eq_iff_index_eq)

lemma applyDriftToWaypoints_h_nth:
  assumes "distinct ws" "a < length h"
  shows "applyDriftToWaypoints_h h ws off ! a =
     (if a \<in> (\<lambda>i. ws ! i) ` {2..<length ws - 1} then shiftY off (h ! a) else h ! a)"
proof -
  have d: "distinct (map (\<lambda>i. ws ! i) [2..<length ws - 1])"
    using assms(1) by (intro distinct_map_nth_upt) simp_all
  show ?thesis
    using fold_update_nth [OF d assms(2), of "shiftY off"]
    by (simp add: applyDriftToWaypoints_h_def fold_heap_write)
qed

lemma applyDriftToWaypoints_h_frame:
  assumes "distinct ws" "a < length h" "a \<notin> set ws"
  shows "applyDriftToWaypoints_h h ws off ! a = h ! a"
proof -
  have "ws ! i \<in> set ws" if "i < length ws - 1" for i
    using that by (intro nth_mem) simp
  with assms(3) have "a \<notin> (\<lambda>i. ws ! i) ` {2..<length ws - 1}"
    by auto
  with applyDriftToWaypoints_h_nth [OF assms(1,2)] show ?thesis by simp
qed

lemma applyDriftToWaypoints_h_view:
  assumes d: "distinct ws" and v: "\<forall>a \<in> set ws. a < length h"
  shows "map (\<lambda>a. applyDriftToWaypoints_h h ws off ! a) ws
         = applyDriftToWaypoints (map (\<lambda>a. h ! a) ws) off"
proof (rule nth_equalityI)
  show "length (map (\<lambda>a. applyDriftToWaypoints_h h ws off ! a) ws)
        = length (applyDriftToWaypoints (map (\<lambda>a. h ! a) ws) off)"
    by (simp add: applyDriftToWaypoints_length)
next
  fix j assume "j < length (map (\<lambda>a. applyDriftToWaypoints_h h ws off ! a) ws)"
  then have j: "j < length ws" by simp
  with v have a: "ws ! j < length h" by simp
  have m: "ws ! j \<in> (\<lambda>i. ws ! i) ` {2..<length ws - 1} \<longleftrightarrow> 2 \<le> j \<and> j < length ws - 1"
    using d j by (auto simp: nth_eq_iff_index_eq)
  show "map (\<lambda>a. applyDriftToWaypoints_h h ws off ! a) ws ! j
        = applyDriftToWaypoints (map (\<lambda>a. h ! a) ws) off ! j"
    using j m applyDriftToWaypoints_h_nth [OF d a, of off]
    by (simp add: applyDriftToWaypoints_nth)
qed


lemma applySegmentDrift_h_length:
  "length (applySegmentDrift_h h ws si off ori) = length h"
  by (simp add: applySegmentDrift_h_def Let_def)

lemma applySegmentDrift_h_frame:
  assumes "a \<notin> set ws"
  shows "applySegmentDrift_h h ws si off ori ! a = h ! a"
proof (cases "si < 0 \<or> si \<ge> int (length ws) - 1")
  case True
  then show ?thesis by (simp add: applySegmentDrift_h_def)
next
  case False
  then have i: "nat si < length ws" "nat si + 1 < length ws" by linarith+
  then have "ws ! nat si \<in> set ws" "ws ! (nat si + 1) \<in> set ws" by (simp_all del: nth_mem add: nth_mem)
  with assms have "ws ! nat si \<noteq> a" "ws ! (nat si + 1) \<noteq> a" by auto
  with False show ?thesis by (simp add: applySegmentDrift_h_def Let_def)
qed

lemma applySegmentDrift_h_view:
  assumes d: "distinct ws" and v: "\<forall>a \<in> set ws. a < length h"
  shows "map (\<lambda>a. applySegmentDrift_h h ws si off ori ! a) ws
         = applySegmentDrift (map (\<lambda>a. h ! a) ws) si off ori"
proof (cases "si < 0 \<or> si \<ge> int (length ws) - 1")
  case True
  then show ?thesis by (simp add: applySegmentDrift_h_def applySegmentDrift_def)
next
  case False
  define i where "i = nat si"
  from False have i: "i < length ws" "i + 1 < length ws" unfolding i_def by linarith+
  from d i have ne: "ws ! i \<noteq> ws ! (i + 1)" by (simp add: nth_eq_iff_index_eq)
  from v i have b: "ws ! i < length h" "ws ! (i + 1) < length h" by simp_all
  have upd: "map (\<lambda>a. (h[ws ! i := f (h ! (ws ! i))])[ws ! (i + 1) := f (h ! (ws ! (i + 1)))] ! a) ws
        = ((map (\<lambda>a. h ! a) ws)[i := f (h ! (ws ! i))])[i + 1 := f (h ! (ws ! (i + 1)))]" for f
  proof (rule nth_equalityI)
    fix j assume "j < length (map (\<lambda>a. (h[ws ! i := f (h ! (ws ! i))])[ws ! (i + 1) := f (h ! (ws ! (i + 1)))] ! a) ws)"
    then have j: "j < length ws" by simp
    with v have bj: "ws ! j < length h" by simp
    from d j i have e: "ws ! j = ws ! i \<longleftrightarrow> j = i" "ws ! j = ws ! (i + 1) \<longleftrightarrow> j = i + 1"
      by (simp_all add: nth_eq_iff_index_eq)
    show "map (\<lambda>a. (h[ws ! i := f (h ! (ws ! i))])[ws ! (i + 1) := f (h ! (ws ! (i + 1)))] ! a) ws ! j
        = ((map (\<lambda>a. h ! a) ws)[i := f (h ! (ws ! i))])[i + 1 := f (h ! (ws ! (i + 1)))] ! j"
      using j bj b e i by (auto simp: nth_list_update)
  qed simp
  show ?thesis
    using False i ne b upd [of "shiftY off"] upd [of "shiftX off"]
    by (simp add: applySegmentDrift_h_def applySegmentDrift_def Let_def i_def [symmetric])
qed

lemma viewConnection_extends:
  assumes "extendsHeap h0 k ws" and "\<forall>a \<in> set (cr_waypoints c). a < length h0"
  shows "viewConnection k c = viewConnection h0 c"
  using assms by (simp add: viewConnection_def extendsHeap_def)

lemma isParallel_view:
  "isParallel (viewConnection h a) (viewConnection k b)
   = isParallel (viewConnection h' a) (viewConnection k' b)"
  by (simp add: isParallel_def viewConnection_def)

lemma nudgeStep_h_refines:
  assumes e: "extendsHeap h0 k ws"
    and o: "\<forall>a \<in> set (cr_waypoints other). a < length h0"
  shows "extendsHeap h0 (fst (nudgeStep_h t c ws other (k, u))) ws
       \<and> length (fst (nudgeStep_h t c ws other (k, u))) = length k
       \<and> (map (\<lambda>a. fst (nudgeStep_h t c ws other (k, u)) ! a) ws, snd (nudgeStep_h t c ws other (k, u)))
         = nudgeStep (viewConnection h0 t) c (viewConnection h0 other) (map (\<lambda>a. k ! a) ws, u)"
proof -
  have vo: "viewConnection k other = viewConnection h0 other"
    using e o by (rule viewConnection_extends)
  have par: "isParallel (viewConnection k t) (viewConnection h0 other)
          = isParallel (viewConnection h0 t) (viewConnection h0 other)"
    by (rule isParallel_view)
  from e have d: "distinct ws" and v: "\<forall>a \<in> set ws. a < length k"
    and lo: "\<forall>a \<in> set ws. length h0 \<le> a"
    by (auto simp: extendsHeap_def)
  have fr: "applySegmentDrift_h k ws si off ori ! a = h0 ! a" if "a < length h0" for si off ori a
  proof -
    from that lo have "a \<notin> set ws" by auto
    then have "applySegmentDrift_h k ws si off ori ! a = k ! a"
      by (rule applySegmentDrift_h_frame)
    with e that show ?thesis by (simp add: extendsHeap_def)
  qed
  have ext: "extendsHeap h0 (applySegmentDrift_h k ws si off ori) ws" for si off ori
    using e fr by (simp add: extendsHeap_def applySegmentDrift_h_length)
  show ?thesis
  proof (cases "isParallel (viewConnection h0 t) (viewConnection h0 other)")
    case True
    with e show ?thesis by (simp add: nudgeStep_h_def nudgeStep_def vo par)
  next
    case np: False
    show ?thesis
    proof (cases "checkConnectionOverlapDetails (map (\<lambda>a. k ! a) ws) (viewConnection h0 other)
                  (\<lambda>s1 s2. checkSegmentCollision s1 s2 (collisionThreshold c))")
      case None
      with np e show ?thesis by (simp add: nudgeStep_h_def nudgeStep_def vo par)
    next
      case (Some overlap)
      with np ext show ?thesis
        by (simp add: nudgeStep_h_def nudgeStep_def vo par Let_def applySegmentDrift_h_length
              applySegmentDrift_h_view [OF d v])
    qed
  qed
qed

lemma fold_nudgeStep_h_refines:
  assumes "extendsHeap h0 k ws"
    and "\<forall>other \<in> set others. \<forall>a \<in> set (cr_waypoints other). a < length h0"
  shows "extendsHeap h0 (fst (fold (nudgeStep_h t c ws) others (k, u))) ws
       \<and> length (fst (fold (nudgeStep_h t c ws) others (k, u))) = length k
       \<and> (map (\<lambda>a. fst (fold (nudgeStep_h t c ws) others (k, u)) ! a) ws,
          snd (fold (nudgeStep_h t c ws) others (k, u)))
         = fold (nudgeStep (viewConnection h0 t) c) (map (viewConnection h0) others)
             (map (\<lambda>a. k ! a) ws, u)"
  using assms
proof (induction others arbitrary: k u)
  case Nil
  then show ?case by simp
next
  case (Cons other others)
  obtain k1 u1 where s: "nudgeStep_h t c ws other (k, u) = (k1, u1)" by fastforce
  from Cons.prems have o: "\<forall>a \<in> set (cr_waypoints other). a < length h0" by simp
  from nudgeStep_h_refines [OF Cons.prems(1) o, of t c u] s
  have e1: "extendsHeap h0 k1 ws" and l1: "length k1 = length k"
    and r1: "(map (\<lambda>a. k1 ! a) ws, u1)
         = nudgeStep (viewConnection h0 t) c (viewConnection h0 other) (map (\<lambda>a. k ! a) ws, u)"
    by simp_all
  from Cons.prems have os: "\<forall>other \<in> set others. \<forall>a \<in> set (cr_waypoints other). a < length h0"
    by simp
  from Cons.IH [OF e1 os, of u1] show ?case
    by (simp add: s l1 r1)
qed


lemma copyWaypoints_h_extends:
  "extendsHeap h (fst (copyWaypoints_h h ws)) (snd (copyWaypoints_h h ws))"
  by (simp add: copyWaypoints_h_def extendsHeap_def nth_append)

lemma copyWaypoints_h_view:
  "map (\<lambda>a. fst (copyWaypoints_h h ws) ! a) (snd (copyWaypoints_h h ws))
   = map (\<lambda>w. \<lparr>pt_x = pt_x w, pt_y = pt_y w\<rparr>) (map (\<lambda>a. h ! a) ws)"
  by (rule nth_equalityI) (simp_all add: copyWaypoints_h_def nth_append)

lemma applyDriftToWaypoints_h_extends:
  assumes "extendsHeap h0 k ws"
  shows "extendsHeap h0 (applyDriftToWaypoints_h k ws off) ws"
proof -
  from assms have d: "distinct ws" and lo: "\<forall>a \<in> set ws. length h0 \<le> a"
    and le: "length h0 \<le> length k"
    by (auto simp: extendsHeap_def)
  have "applyDriftToWaypoints_h k ws off ! a = h0 ! a" if "a < length h0" for a
  proof -
    from that lo have n: "a \<notin> set ws" by auto
    from that le have "a < length k" by simp
    from applyDriftToWaypoints_h_frame [OF d this n] assms that show ?thesis
      by (simp add: extendsHeap_def)
  qed
  with assms show ?thesis by (simp add: extendsHeap_def applyDriftToWaypoints_h_length)
qed

text \<open>
  Claim C10. Let every reference in the waypoint arrays of the target connection and of
  the other connections point to an object of the heap. Then after
  \<open>computeResolvedWaypoints\<close> every object that was in the heap has the fields it had, so
  the target and the other connections read the same waypoints as before; the returned
  array consists of the objects allocated by the call; its points and the \<open>updated\<close> flag
  are those of the functional model of the previous sections; and for a target with
  fewer than 2 waypoints the result is the unchanged copy with \<open>updated = false\<close>.
\<close>

theorem computeResolvedWaypoints_frame:
  fixes key :: "string \<Rightarrow> 'k::linorder"
  assumes wf: "\<forall>c \<in> set (t # others). \<forall>a \<in> set (cr_waypoints c). a < length h"
  shows "case computeResolvedWaypoints_h key h t others constants of
     (h', waypoints, updated) \<Rightarrow>
        take (length h) h' = h
      \<and> (\<forall>c \<in> set (t # others). viewConnection h' c = viewConnection h c)
      \<and> waypoints = [length h..<length h + length (cr_waypoints t)]
      \<and> length h' = length h + length (cr_waypoints t)
      \<and> (map (\<lambda>a. h' ! a) waypoints, updated)
          = computeResolvedWaypoints key (viewConnection h t) (map (viewConnection h) others) constants
      \<and> (length (cr_waypoints t) < 2 \<longrightarrow>
            \<not> updated \<and> map (\<lambda>a. h' ! a) waypoints = map (\<lambda>a. h ! a) (cr_waypoints t))"
proof -
  define h1 where "h1 = fst (copyWaypoints_h h (cr_waypoints t))"
  define ws where "ws = snd (copyWaypoints_h h (cr_waypoints t))"
  have cp: "copyWaypoints_h h (cr_waypoints t) = (h1, ws)" by (simp add: h1_def ws_def)
  have e1: "extendsHeap h h1 ws" unfolding h1_def ws_def by (rule copyWaypoints_h_extends)
  have wsr: "ws = [length h..<length h + length (cr_waypoints t)]"
    by (simp add: ws_def copyWaypoints_h_def)
  have l1: "length h1 = length h + length (cr_waypoints t)"
    by (simp add: h1_def copyWaypoints_h_def)
  have v1: "map (\<lambda>a. h1 ! a) ws = cn_waypoints (viewConnection h t)"
    unfolding h1_def ws_def copyWaypoints_h_view by (simp add: viewConnection_def map_copy_point)
  have wft: "\<forall>a \<in> set (cr_waypoints t). a < length h"
    and wfo: "\<forall>other \<in> set others. \<forall>a \<in> set (cr_waypoints other). a < length h"
    using wf by simp_all
  have fin: "take (length h) k = h \<and> (\<forall>c \<in> set (t # others). viewConnection k c = viewConnection h c)"
    if "extendsHeap h k ws" for k
  proof
    from that show "take (length h) k = h"
      by (intro nth_equalityI) (simp_all add: extendsHeap_def)
    from that wf show "\<forall>c \<in> set (t # others). viewConnection k c = viewConnection h c"
      by (intro ballI viewConnection_extends [where ws = ws]) auto
  qed
  show ?thesis
  proof (cases "length (cr_waypoints t) < 2")
    case True
    then have short: "length ws < 2" by (simp add: wsr)
    have "computeResolvedWaypoints key (viewConnection h t) (map (viewConnection h) others) constants
          = (cn_waypoints (viewConnection h t), False)"
      using True by (simp add: computeResolvedWaypoints_def map_copy_point viewConnection_def)
    with True short fin [OF e1] v1 l1 wsr show ?thesis
      by (simp add: computeResolvedWaypoints_h_def cp viewConnection_def)
  next
    case False
    then have long: "\<not> length ws < 2" by (simp add: wsr)
    define pg where "pg = filter (\<lambda>other. isParallel (viewConnection h1 t) (viewConnection h1 other)) others"
    have pg: "map (viewConnection h) pg
              = filter (isParallel (viewConnection h t)) (map (viewConnection h) others)"
      unfolding pg_def filter_map comp_def
      using isParallel_view [of h1 t h1 _ h h] by simp
    have vt: "viewConnection h1 t = viewConnection h t"
      using e1 wft by (rule viewConnection_extends)
    have vpg: "map (viewConnection h1) pg = map (viewConnection h) pg"
      using wfo by (auto simp: pg_def intro!: viewConnection_extends [OF e1])
    define off where "off = parallelFanOffset key (viewConnection h t) (map (viewConnection h) pg) constants"
    define s where "s = (if length pg > 0
                   then if \<bar>off\<bar> > 1 then (applyDriftToWaypoints_h h1 ws off, True) else (h1, False)
                   else (h1, False))"
    define ps where "ps = (if length pg > 0
                   then if \<bar>off\<bar> > 1 then (applyDriftToWaypoints (cn_waypoints (viewConnection h t)) off, True)
                        else (cn_waypoints (viewConnection h t), False)
                   else (cn_waypoints (viewConnection h t), False))"
    from e1 have d: "distinct ws" and v: "\<forall>a \<in> set ws. a < length h1"
      by (auto simp: extendsHeap_def)
    have es: "extendsHeap h (fst s) ws"
      using e1 applyDriftToWaypoints_h_extends [OF e1] by (simp add: s_def)
    have ls: "length (fst s) = length h1"
      by (simp add: s_def applyDriftToWaypoints_h_length)
    have vs: "(map (\<lambda>a. fst s ! a) ws, snd s) = ps"
      using applyDriftToWaypoints_h_view [OF d v, of off] v1 by (simp add: s_def ps_def)
    define r where "r = fold (nudgeStep_h t constants ws) others (fst s, snd s)"
    from fold_nudgeStep_h_refines [OF es wfo, of t constants "snd s"]
    have er: "extendsHeap h (fst r) ws" and lr: "length (fst r) = length (fst s)"
      and vr: "(map (\<lambda>a. fst r ! a) ws, snd r)
         = fold (nudgeStep (viewConnection h t) constants) (map (viewConnection h) others) ps"
      by (simp_all add: r_def vs)
    have impl: "computeResolvedWaypoints_h key h t others constants = (fst r, ws, snd r)"
    proof -
      have pgeq: "filter (\<lambda>other. isParallel (viewConnection h1 t) (viewConnection h1 other)) others = pg"
        by (simp add: pg_def)
      have offeq: "parallelFanOffset key (viewConnection h1 t) (map (viewConnection h1) pg) constants = off"
        by (simp add: off_def vt vpg)
      show ?thesis
        unfolding computeResolvedWaypoints_h_def cp prod.case Let_def pgeq offeq s_def [symmetric]
        using long by (simp add: r_def split_beta)
    qed
    have spec: "computeResolvedWaypoints key (viewConnection h t) (map (viewConnection h) others) constants
          = fold (nudgeStep (viewConnection h t) constants) (map (viewConnection h) others) ps"
    proof -
      have lenv: "length (cn_waypoints (viewConnection h t)) = length (cr_waypoints t)"
        by (simp add: viewConnection_def)
      show ?thesis
        unfolding computeResolvedWaypoints_def Let_def pg [symmetric] map_copy_point ps_def off_def
        using False lenv by simp
    qed
    from False fin [OF er] wsr l1 lr ls vr show ?thesis
      by (simp add: impl spec)
  qed
qed


lemma pure_nudged:
  "computeResolvedWaypoints (\<lambda>s. s) (viewConnection heapAB targetRefs)
      (map (viewConnection heapAB) [otherRefs]) DEFAULT_LAYOUT_CONSTANTS
   = ([\<lparr>pt_x = 100, pt_y = 22\<rparr>, \<lparr>pt_x = 200, pt_y = 22\<rparr>, \<lparr>pt_x = 200, pt_y = 140\<rparr>,
       \<lparr>pt_x = 250, pt_y = 140\<rparr>, \<lparr>pt_x = 300, pt_y = 140\<rparr>], True)"
  by (simp add: computeResolvedWaypoints_def viewConnection_def heapAB_def targetRefs_def
        otherRefs_def wpsA_def shiftY_def isParallel_def nudgeStep_def
        checkConnectionOverlapDetails_def getOrientation_exact checkSegmentCollision_def
        checkIntervalOverlap_def applySegmentDrift_def DEFAULT_LAYOUT_CONSTANTS_def Let_def)

theorem computeResolvedWaypoints_frame_witness:
  "list_all (\<lambda>c. list_all (\<lambda>a. a < length heapAB) (cr_waypoints c)) [targetRefs, otherRefs]
   \<and> take (length heapAB)
        (fst (computeResolvedWaypoints_h (\<lambda>s. s) heapAB targetRefs [otherRefs] DEFAULT_LAYOUT_CONSTANTS))
       = heapAB
   \<and> fst (snd (computeResolvedWaypoints_h (\<lambda>s. s) heapAB targetRefs [otherRefs] DEFAULT_LAYOUT_CONSTANTS))
       = [10, 11, 12, 13, 14]
   \<and> map (\<lambda>a. fst (computeResolvedWaypoints_h (\<lambda>s. s) heapAB targetRefs [otherRefs]
                      DEFAULT_LAYOUT_CONSTANTS) ! a) [10, 11, 12, 13, 14]
       = [\<lparr>pt_x = 100, pt_y = 22\<rparr>, \<lparr>pt_x = 200, pt_y = 22\<rparr>, \<lparr>pt_x = 200, pt_y = 140\<rparr>,
          \<lparr>pt_x = 250, pt_y = 140\<rparr>, \<lparr>pt_x = 300, pt_y = 140\<rparr>]
   \<and> snd (snd (computeResolvedWaypoints_h (\<lambda>s. s) heapAB targetRefs [otherRefs]
                 DEFAULT_LAYOUT_CONSTANTS))"
proof -
  have len: "length heapAB = 10" by (simp add: heapAB_def wpsA_def)
  have wf: "\<forall>c \<in> set (targetRefs # [otherRefs]). \<forall>a \<in> set (cr_waypoints c). a < length heapAB"
    by (simp add: len targetRefs_def otherRefs_def)
  have rng: "[length heapAB..<length heapAB + length (cr_waypoints targetRefs)] = [10, 11, 12, 13, 14]"
    by (simp add: len targetRefs_def upt_rec)
  obtain h' ws u where r: "computeResolvedWaypoints_h (\<lambda>s. s) heapAB targetRefs [otherRefs]
      DEFAULT_LAYOUT_CONSTANTS = (h', ws, u)"
    using prod_cases3 by blast
  from computeResolvedWaypoints_frame [OF wf, of "\<lambda>s. s" DEFAULT_LAYOUT_CONSTANTS]
  have "take (length heapAB) h' = heapAB" and "ws = [10, 11, 12, 13, 14]"
    and "(map (\<lambda>a. h' ! a) ws, u)
          = ([\<lparr>pt_x = 100, pt_y = 22\<rparr>, \<lparr>pt_x = 200, pt_y = 22\<rparr>, \<lparr>pt_x = 200, pt_y = 140\<rparr>,
       \<lparr>pt_x = 250, pt_y = 140\<rparr>, \<lparr>pt_x = 300, pt_y = 140\<rparr>], True)"
    unfolding r prod.case rng pure_nudged by blast+
  then show ?thesis
    using wf by (simp add: r list_all_iff)
qed

section \<open>Termination of the rank assignment\<close>

lemma cycle_queue: "initialQueue (cycleNodes 0 0) cycleAdjacency = [''Task_A'']"
  by (simp add: initialQueue_def computeInDegree_def cycleNodes_def cycleAdjacency_def taskNode_def)

lemma cycle_step:
  assumes "cycleState s"
  shows "\<exists>currId queue s'. snd s = currId # queue
      \<and> foldE (relax currId)
           (case map_of cycleAdjacency currId of None \<Rightarrow> [] | Some neighbors \<Rightarrow> neighbors)
           (fst s, queue) = Inr s'
      \<and> cycleState s'"
proof -
  from assms obtain ra rb where
    "(s = (cycleNodes ra rb, [''Task_A'']) \<and> rb \<le> ra)
     \<or> (s = (cycleNodes ra rb, [''Task_B'']) \<and> ra \<le> rb)"
    unfolding cycleState_def by blast
  then show ?thesis
  proof
    assume a: "s = (cycleNodes ra rb, [''Task_A'']) \<and> rb \<le> ra"
    then have "foldE (relax ''Task_A'')
           (case map_of cycleAdjacency ''Task_A'' of None \<Rightarrow> [] | Some neighbors \<Rightarrow> neighbors)
           (fst s, []) = Inr (cycleNodes ra (ra + 1), [''Task_B''])"
      by (simp add: cycleAdjacency_def cycleNodes_def relax_def taskNode_def)
    moreover have "cycleState (cycleNodes ra (ra + 1), [''Task_B''])"
      unfolding cycleState_def by (intro exI [of _ ra] exI [of _ "ra + 1"]) simp
    ultimately show ?thesis using a by auto
  next
    assume b: "s = (cycleNodes ra rb, [''Task_B'']) \<and> ra \<le> rb"
    then have "foldE (relax ''Task_B'')
           (case map_of cycleAdjacency ''Task_B'' of None \<Rightarrow> [] | Some neighbors \<Rightarrow> neighbors)
           (fst s, []) = Inr (cycleNodes (rb + 1) rb, [''Task_A''])"
      by (simp add: cycleAdjacency_def cycleNodes_def relax_def taskNode_def)
    moreover have "cycleState (cycleNodes (rb + 1) rb, [''Task_A''])"
      unfolding cycleState_def by (intro exI [of _ "rb + 1"] exI [of _ rb]) simp
    ultimately show ?thesis using b by auto
  qed
qed

lemma cycle_never_returns:
  assumes r: "rankLoop adjacency s = Some y"
  shows "adjacency = cycleAdjacency \<longrightarrow> \<not> cycleState s"
proof (rule rankLoop.raw_induct
    [where P = "\<lambda>adjacency s y. adjacency = cycleAdjacency \<longrightarrow> \<not> cycleState s", OF _ r])
  fix loop :: "adjacency \<Rightarrow> nodeMap \<times> string list \<Rightarrow> (error + nodeMap) option"
  fix adj t z
  assume IH: "\<And>adj t z. loop adj t = Some z \<Longrightarrow> adj = cycleAdjacency \<longrightarrow> \<not> cycleState t"
    and eq: "(case snd t of
        [] \<Rightarrow> Some (Inr (fst t))
      | currId # queue \<Rightarrow>
          (case foldE (relax currId)
                  (case map_of adj currId of None \<Rightarrow> [] | Some neighbors \<Rightarrow> neighbors)
                  (fst t, queue) of
             Inl e \<Rightarrow> Some (Inl e)
           | Inr s' \<Rightarrow> loop adj s')) = Some z"
  show "adj = cycleAdjacency \<longrightarrow> \<not> cycleState t"
  proof (intro impI notI)
    assume adj: "adj = cycleAdjacency" and c: "cycleState t"
    from cycle_step [OF c] obtain currId queue t' where
      q: "snd t = currId # queue"
      and f: "foldE (relax currId)
           (case map_of cycleAdjacency currId of None \<Rightarrow> [] | Some neighbors \<Rightarrow> neighbors)
           (fst t, queue) = Inr t'"
      and c': "cycleState t'" by blast
    from eq q f adj have "loop cycleAdjacency t' = Some z" by simp
    from IH [OF this] c' show False by simp
  qed
qed

text \<open>
  Claim C2 says that \<open>assignRanks\<close> terminates on every graph, cycles included. On the
  graph that \<open>buildGraphFromElements\<close> makes of two tasks with sequence flows A to B and
  B to A, no task has in-degree 0, the queue starts with A, and from then on each task
  raises the rank of the other and enqueues it: the loop never returns.
\<close>

theorem assignRanks_cycle_diverges:
  "map_sum id (\<lambda>g. (fst g, fst (snd g))) (buildGraphFromElements (ctx_store cycleDiagram) [1, 2])
     = Inr (cycleNodes 0 0, cycleAdjacency)
   \<and> assignRanks (cycleNodes 0 0) cycleAdjacency = None"
proof -
  have cs: "cycleState (cycleNodes 0 0, [''Task_A''])"
    unfolding cycleState_def by (intro exI [of _ 0]) simp
  have "rankLoop cycleAdjacency (cycleNodes 0 0, [''Task_A'']) = None"
  proof (cases "rankLoop cycleAdjacency (cycleNodes 0 0, [''Task_A''])")
    case (Some y)
    from cycle_never_returns [OF Some] cs show ?thesis by simp
  qed simp
  then have "assignRanks (cycleNodes 0 0) cycleAdjacency = None"
    by (simp add: assignRanks_def cycle_queue)
  moreover have "map_sum id (\<lambda>g. (fst g, fst (snd g)))
       (buildGraphFromElements (ctx_store cycleDiagram) [1, 2])
     = Inr (cycleNodes 0 0, cycleAdjacency)"
    by code_simp
  ultimately show ?thesis by simp
qed


section \<open>Rank monotonicity\<close>

lemma set_update_alist:
  "e \<in> set (AList.update k v al) \<Longrightarrow> e = (k, v) \<or> e \<in> set al"
  by (induction al) (auto split: if_splits)

lemma addNode_fresh:
  assumes "\<forall>(k, node) \<in> set (fst g). nd_rank node = 0 \<and> nd_id node = k"
    and "addNode st el g = Inr g'"
  shows "\<forall>(k, node) \<in> set (fst g'). nd_rank node = 0 \<and> nd_id node = k"
  using assms
  by (auto simp: addNode_def split: prod.splits option.splits dest!: set_update_alist)

lemma addEdge_nodeMap: "addEdge st el conn g = Inr g' \<Longrightarrow> fst g' = fst g"
  by (auto simp: addEdge_def Let_def split: prod.splits option.splits if_splits)

lemma foldE_addNode_fresh:
  assumes "\<forall>(k, node) \<in> set (fst g). nd_rank node = 0 \<and> nd_id node = k"
    and "foldE (addNode st) els g = Inr g'"
  shows "\<forall>(k, node) \<in> set (fst g'). nd_rank node = 0 \<and> nd_id node = k"
  using assms
proof (induction els arbitrary: g)
  case Nil
  then show ?case by simp
next
  case (Cons el els)
  from Cons.prems(2) obtain g1 where 1: "addNode st el g = Inr g1" and 2: "foldE (addNode st) els g1 = Inr g'"
    by (auto split: sum.splits)
  from addNode_fresh [OF Cons.prems(1) 1] have "\<forall>(k, node) \<in> set (fst g1). nd_rank node = 0 \<and> nd_id node = k" .
  from Cons.IH [OF this 2] show ?case .
qed

lemma foldE_addEdge_nodeMap: "foldE (addEdge st el) conns g = Inr g' \<Longrightarrow> fst g' = fst g"
proof (induction conns arbitrary: g)
  case Nil
  then show ?case by simp
next
  case (Cons c conns)
  from Cons.prems obtain g1 where 1: "addEdge st el c g = Inr g1" and 2: "foldE (addEdge st el) conns g1 = Inr g'"
    by (auto split: sum.splits)
  from Cons.IH [OF 2] addEdge_nodeMap [OF 1] show ?case by simp
qed

lemma foldE_edges_nodeMap:
  "foldE (\<lambda>el. foldE (addEdge st el) (case el_outgoing (st el) of None \<Rightarrow> [] | Some out \<Rightarrow> out)) els g
     = Inr g' \<Longrightarrow> fst g' = fst g"
proof (induction els arbitrary: g)
  case Nil
  then show ?case by simp
next
  case (Cons el els)
  from Cons.prems obtain g1 where
    1: "foldE (addEdge st el) (case el_outgoing (st el) of None \<Rightarrow> [] | Some out \<Rightarrow> out) g = Inr g1"
    and 2: "foldE (\<lambda>el. foldE (addEdge st el) (case el_outgoing (st el) of None \<Rightarrow> [] | Some out \<Rightarrow> out)) els g1 = Inr g'"
    by (auto split: sum.splits)
  from Cons.IH [OF 2] foldE_addEdge_nodeMap [OF 1] show ?case by simp
qed

lemma buildGraphFromElements_fresh:
  assumes "buildGraphFromElements st elements = Inr (nodeMap, adjacency, inDegree)"
  shows "\<forall>(k, node) \<in> set nodeMap. nd_rank node = 0 \<and> nd_id node = k"
proof -
  from assms obtain g where
    1: "foldE (addNode st) elements ([], [], Map.empty) = Inr g"
    and 2: "foldE (\<lambda>el. foldE (addEdge st el) (case el_outgoing (st el) of None \<Rightarrow> [] | Some out \<Rightarrow> out))
              elements g = Inr (nodeMap, adjacency, inDegree)"
    by (auto simp: buildGraphFromElements_def split: sum.splits)
  from foldE_addNode_fresh [OF _ 1] have "\<forall>(k, node) \<in> set (fst g). nd_rank node = 0 \<and> nd_id node = k"
    by simp
  with foldE_edges_nodeMap [OF 2] show ?thesis by simp
qed

lemma rankOf_update:
  "rankOf (AList.update k v nm) = (rankOf nm)(k \<mapsto> nd_rank v)"
  by (rule ext) (simp add: rankOf_def update_conv')

lemma relax_effect:
  assumes "relax c n (nm, q) = Inr (nm', q')"
  shows "\<exists>rn rc. rankOf nm n = Some rn \<and> rankOf nm c = Some rc
     \<and> (if rn \<le> rc then rankOf nm' = (rankOf nm)(n \<mapsto> rc + 1) \<and> q' = q @ [n]
         else nm' = nm \<and> q' = q)"
  using assms
  by (auto simp: relax_def rankOf_def rankOf_update split: option.splits if_splits)

lemma relax_inv:
  assumes inv: "rankInv adjacency seeds c (n # rem) (nm, q)"
    and r: "relax c n (nm, q) = Inr (nm', q')"
  shows "rankInv adjacency seeds c rem (nm', q') \<and> dom (rankOf nm') = dom (rankOf nm)"
proof -
  from relax_effect [OF r] obtain rn rc where
    rn: "rankOf nm n = Some rn" and rc: "rankOf nm c = Some rc"
    and eff: "if rn \<le> rc then rankOf nm' = (rankOf nm)(n \<mapsto> rc + 1) \<and> q' = q @ [n]
              else nm' = nm \<and> q' = q"
    by blast
  show ?thesis
  proof (cases "rn \<le> rc")
    case False
    with eff have same: "nm' = nm" "q' = q" by simp_all
    have "rankInv adjacency seeds c rem (nm, q)"
      unfolding rankInv_def
    proof (intro allI impI)
      fix u v assume e: "(u, v) \<in> edges adjacency" and d: "rankOf (fst (nm, q)) u \<noteq> None"
      from inv e d have "u \<in> set q \<or> (u = c \<and> v \<in> set (n # rem)) \<or> good nm u v
        \<or> (rankOf nm u = Some 0 \<and> u \<notin> seeds)"
        unfolding rankInv_def by simp
      moreover have "good nm c n" using False rn rc by (auto simp: good_def)
      ultimately show "u \<in> set (snd (nm, q)) \<or> (u = c \<and> v \<in> set rem) \<or> good (fst (nm, q)) u v
        \<or> (rankOf (fst (nm, q)) u = Some 0 \<and> u \<notin> seeds)"
        by auto
    qed
    with same show ?thesis by simp
  next
    case True
    with eff have R: "rankOf nm' = (rankOf nm)(n \<mapsto> rc + 1)" and Q: "q' = q @ [n]" by simp_all
    have mono: "good nm' u v" if g: "good nm u v" and "u \<noteq> n" for u v
    proof -
      from g obtain ru rv where "rankOf nm u = Some ru" "rankOf nm v = Some rv" "ru < rv"
        unfolding good_def by blast
      with that(2) rn True show ?thesis
        unfolding good_def R by (cases "v = n") auto
    qed
    have "rankInv adjacency seeds c rem (nm', q')"
      unfolding rankInv_def
    proof (intro allI impI)
      fix u v assume e: "(u, v) \<in> edges adjacency" and d: "rankOf (fst (nm', q')) u \<noteq> None"
      show "u \<in> set (snd (nm', q')) \<or> (u = c \<and> v \<in> set rem) \<or> good (fst (nm', q')) u v
        \<or> (rankOf (fst (nm', q')) u = Some 0 \<and> u \<notin> seeds)"
      proof (cases "u = n")
        case True
        then show ?thesis by (simp add: Q)
      next
        case un: False
        with d have d': "rankOf nm u \<noteq> None" by (simp add: R)
        from inv e d' have "u \<in> set q \<or> (u = c \<and> v \<in> set (n # rem)) \<or> good nm u v
          \<or> (rankOf nm u = Some 0 \<and> u \<notin> seeds)"
          unfolding rankInv_def by simp
        moreover have "good nm' c n" if "c \<noteq> n"
          using that rc by (simp add: good_def R)
        ultimately show ?thesis
          using un mono [of u v] by (auto simp: Q R)
      qed
    qed
    moreover have "dom (rankOf nm') = dom (rankOf nm)"
      using rn by (auto simp: R)
    ultimately show ?thesis by simp
  qed
qed

lemma foldE_relax_inv:
  assumes "rankInv adjacency seeds c rem s" and "foldE (relax c) rem s = Inr s'"
  shows "rankInv adjacency seeds c [] s' \<and> dom (rankOf (fst s')) = dom (rankOf (fst s))"
  using assms
proof (induction rem arbitrary: s)
  case Nil
  then show ?case by simp
next
  case (Cons n rem)
  from Cons.prems(2) obtain s1 where s1: "relax c n s = Inr s1" and f: "foldE (relax c) rem s1 = Inr s'"
    by (auto split: sum.splits)
  from relax_inv [of adjacency seeds c n rem "fst s" "snd s" "fst s1" "snd s1"] Cons.prems(1) s1
  have i1: "rankInv adjacency seeds c rem s1" and d1: "dom (rankOf (fst s1)) = dom (rankOf (fst s))"
    by simp_all
  from Cons.IH [OF i1 f] d1 show ?case by simp
qed


lemma rankInv_pop:
  assumes "rankInv adjacency seeds c' [] (nm, c # q)"
  shows "rankInv adjacency seeds c
           (case map_of adjacency c of None \<Rightarrow> [] | Some neighbors \<Rightarrow> neighbors) (nm, q)"
  unfolding rankInv_def
proof (intro allI impI)
  fix u v assume e: "(u, v) \<in> edges adjacency" and d: "rankOf (fst (nm, q)) u \<noteq> None"
  with assms have "u \<in> set (c # q) \<or> good nm u v \<or> (rankOf nm u = Some 0 \<and> u \<notin> seeds)"
    unfolding rankInv_def by simp
  moreover from e have "v \<in> set (case map_of adjacency c of None \<Rightarrow> [] | Some neighbors \<Rightarrow> neighbors)"
    if "u = c"
    using that by (auto simp: edges_def)
  ultimately show "u \<in> set (snd (nm, q))
      \<or> (u = c \<and> v \<in> set (case map_of adjacency c of None \<Rightarrow> [] | Some neighbors \<Rightarrow> neighbors))
      \<or> good (fst (nm, q)) u v \<or> (rankOf (fst (nm, q)) u = Some 0 \<and> u \<notin> seeds)"
    by auto
qed

lemma rankInv_Nil: "rankInv adjacency seeds c [] s \<Longrightarrow> rankInv adjacency seeds c' [] s"
  by (simp add: rankInv_def)

lemma rankLoop_inv:
  assumes r: "rankLoop adjacency s = Some y"
  shows "\<forall>nm'. y = Inr nm' \<longrightarrow> rankInv adjacency seeds [] [] s \<longrightarrow>
           rankInv adjacency seeds [] [] (nm', []) \<and> dom (rankOf nm') = dom (rankOf (fst s))"
proof (rule rankLoop.raw_induct
    [where P = "\<lambda>adjacency s y. \<forall>nm'. y = Inr nm' \<longrightarrow> rankInv adjacency seeds [] [] s \<longrightarrow>
           rankInv adjacency seeds [] [] (nm', []) \<and> dom (rankOf nm') = dom (rankOf (fst s))", OF _ r])
  fix loop :: "adjacency \<Rightarrow> nodeMap \<times> string list \<Rightarrow> (error + nodeMap) option"
  fix adj t z
  assume IH: "\<And>adj t z. loop adj t = Some z \<Longrightarrow>
       \<forall>nm'. z = Inr nm' \<longrightarrow> rankInv adj seeds [] [] t \<longrightarrow>
           rankInv adj seeds [] [] (nm', []) \<and> dom (rankOf nm') = dom (rankOf (fst t))"
    and eq: "(case snd t of
        [] \<Rightarrow> Some (Inr (fst t))
      | currId # queue \<Rightarrow>
          (case foldE (relax currId)
                  (case map_of adj currId of None \<Rightarrow> [] | Some neighbors \<Rightarrow> neighbors)
                  (fst t, queue) of
             Inl e \<Rightarrow> Some (Inl e)
           | Inr s' \<Rightarrow> loop adj s')) = Some z"
  show "\<forall>nm'. z = Inr nm' \<longrightarrow> rankInv adj seeds [] [] t \<longrightarrow>
           rankInv adj seeds [] [] (nm', []) \<and> dom (rankOf nm') = dom (rankOf (fst t))"
  proof (intro allI impI)
    fix nm' assume z: "z = Inr nm'" and inv: "rankInv adj seeds [] [] t"
    show "rankInv adj seeds [] [] (nm', []) \<and> dom (rankOf nm') = dom (rankOf (fst t))"
    proof (cases "snd t")
      case Nil
      with eq z have "nm' = fst t" by simp
      with Nil inv show ?thesis by (cases t) simp
    next
      case (Cons c q)
      with inv have "rankInv adj seeds [] [] (fst t, c # q)" by (cases t) simp
      then have p: "rankInv adj seeds c
           (case map_of adj c of None \<Rightarrow> [] | Some neighbors \<Rightarrow> neighbors) (fst t, q)"
        by (rule rankInv_pop)
      from eq Cons z obtain t' where
        f: "foldE (relax c) (case map_of adj c of None \<Rightarrow> [] | Some neighbors \<Rightarrow> neighbors)
              (fst t, q) = Inr t'"
        and l: "loop adj t' = Some z"
        by (auto split: sum.splits)
      from foldE_relax_inv [OF p f]
      have i': "rankInv adj seeds [] [] t'" and d': "dom (rankOf (fst t')) = dom (rankOf (fst t))"
        by (auto intro: rankInv_Nil)
      from IH [OF l] z i' d' show ?thesis by simp
    qed
  qed
qed

text \<open>
  Claim C4, amended. Let the ranks start at 0 and the keys of the node map be the node
  identifiers, as \<open>buildGraphFromElements\<close> makes them (\<open>buildGraphFromElements_fresh\<close>),
  and let \<open>assignRanks\<close> return without an error. Then every edge \<open>(u, v)\<close> whose source \<open>u\<close> can be reached from a node the queue
  started with (a node of in-degree 0, or the first node when there is none) has
  \<open>rank v > rank u\<close>.
\<close>

theorem assignRanks_rank_monotone:
  assumes run: "assignRanks nodeMap adjacency = Some (Inr nodeMap')"
    and init: "\<forall>(k, node) \<in> set nodeMap. nd_rank node = 0 \<and> nd_id node = k"
    and seed: "s \<in> set (initialQueue nodeMap adjacency)"
    and reach: "(s, u) \<in> (edges adjacency)\<^sup>*"
    and edge: "(u, v) \<in> edges adjacency"
  shows "\<exists>ru rv. rankOf nodeMap' u = Some ru \<and> rankOf nodeMap' v = Some rv \<and> ru < rv"
proof -
  define seeds where "seeds = set (initialQueue nodeMap adjacency)"
  have zero: "rankOf nodeMap k = Some 0" if "rankOf nodeMap k \<noteq> None" for k
  proof -
    from that obtain node where m: "map_of nodeMap k = Some node" by (auto simp: rankOf_def)
    then have "(k, node) \<in> set nodeMap" by (rule map_of_SomeD)
    with init m show ?thesis by (auto simp: rankOf_def)
  qed
  have keys: "k \<in> dom (rankOf nodeMap)" if "(k, node) \<in> set nodeMap" for k node
    using that by (auto simp: rankOf_def dest!: weak_map_of_SomeI)
  have sd: "seeds \<subseteq> dom (rankOf nodeMap)"
  proof
    fix x assume "x \<in> seeds"
    then consider node k where "(k, node) \<in> set nodeMap" "x = nd_id node"
      | "nodeMap \<noteq> []" "x = fst (hd nodeMap)"
      by (auto simp: seeds_def initialQueue_def Let_def split: if_splits)
    then show "x \<in> dom (rankOf nodeMap)"
    proof cases
      case 1
      with init have "(x, node) \<in> set nodeMap" by auto
      then show ?thesis by (rule keys)
    next
      case 2
      then have "(x, snd (hd nodeMap)) \<in> set nodeMap" by (cases nodeMap) auto
      then show ?thesis by (rule keys)
    qed
  qed
  have i0: "rankInv adjacency seeds [] [] (nodeMap, initialQueue nodeMap adjacency)"
    unfolding rankInv_def using zero by (auto simp: seeds_def)
  from run have "rankLoop adjacency (nodeMap, initialQueue nodeMap adjacency) = Some (Inr nodeMap')"
    by (simp add: assignRanks_def)
  from rankLoop_inv [OF this, of seeds] i0
  have fin: "rankInv adjacency seeds [] [] (nodeMap', [])"
    and d: "dom (rankOf nodeMap') = dom (rankOf nodeMap)"
    by simp_all
  have edge_ok: "good nodeMap' x y \<or> (rankOf nodeMap' x = Some 0 \<and> x \<notin> seeds)"
    if "(x, y) \<in> edges adjacency" "rankOf nodeMap' x \<noteq> None" for x y
    using fin that unfolding rankInv_def by auto
  from reach have "rankOf nodeMap' u \<noteq> None
      \<and> (u \<in> seeds \<or> (\<exists>r. rankOf nodeMap' u = Some r \<and> 0 < r))"
  proof (induction rule: rtrancl_induct)
    case base
    from seed sd d show ?case by (auto simp: seeds_def)
  next
    case (step x y)
    from step.IH step.hyps(2) edge_ok [of x y] have "good nodeMap' x y"
      by auto
    then show ?case by (auto simp: good_def)
  qed
  with edge_ok [OF edge] have "good nodeMap' u v" by auto
  then show ?thesis by (simp add: good_def)
qed


lemma lane_graph:
  "map_sum id (\<lambda>g. (fst g, fst (snd g))) (buildGraphFromElements (ctx_store laneDiagram) [1, 2, 3])
     = Inr (laneNodes 0 0 0, laneAdjacency)"
  by code_simp

lemma lane_run: "assignRanks (laneNodes 0 0 0) laneAdjacency = Some (Inr (laneNodes 0 1 2))"
  by code_simp

theorem assignRanks_rank_monotone_witness:
  "assignRanks (laneNodes 0 0 0) laneAdjacency = Some (Inr (laneNodes 0 1 2))
   \<and> list_all (\<lambda>(k, node). nd_rank node = 0 \<and> nd_id node = k) (laneNodes 0 0 0)
   \<and> ''Task_A'' \<in> set (initialQueue (laneNodes 0 0 0) laneAdjacency)
   \<and> (''Task_A'', ''Task_B'') \<in> (edges laneAdjacency)\<^sup>*
   \<and> (''Task_B'', ''Task_C'') \<in> edges laneAdjacency
   \<and> (\<exists>ru rv. rankOf (laneNodes 0 1 2) ''Task_B'' = Some ru
              \<and> rankOf (laneNodes 0 1 2) ''Task_C'' = Some rv \<and> ru < rv)
   \<and> rankOf (laneNodes 0 1 2) ''Task_B'' = Some 1
   \<and> rankOf (laneNodes 0 1 2) ''Task_C'' = Some 2"
proof -
  have init: "\<forall>(k, node) \<in> set (laneNodes 0 0 0). nd_rank node = 0 \<and> nd_id node = k"
    by (simp add: laneNodes_def taskNode_def)
  have seed: "''Task_A'' \<in> set (initialQueue (laneNodes 0 0 0) laneAdjacency)"
    by (simp add: initialQueue_def computeInDegree_def laneNodes_def laneAdjacency_def taskNode_def)
  have ab: "(''Task_A'', ''Task_B'') \<in> edges laneAdjacency"
    and bc: "(''Task_B'', ''Task_C'') \<in> edges laneAdjacency"
    by (simp_all add: edges_def laneAdjacency_def)
  from ab have reach: "(''Task_A'', ''Task_B'') \<in> (edges laneAdjacency)\<^sup>*" by (rule r_into_rtrancl)
  from assignRanks_rank_monotone [OF lane_run init seed reach bc] init seed reach bc lane_run
  show ?thesis
    by (simp add: list_all_iff) (simp add: rankOf_def laneNodes_def taskNode_def)
qed

text \<open>
  Claim C4, as stated: every edge that lies on no cycle has \<open>rank v > rank u\<close>. In the
  graph of an isolated task R, a cycle A, B and an edge from B to C, only R has in-degree
  0, so the queue holds R alone, the run ends at once and every rank stays 0: the edge
  from B to C lies on no cycle (C has no successor) and both ends have rank 0.
\<close>

theorem assignRanks_rank_monotone_counterexample:
  "map_sum id (\<lambda>g. (fst g, fst (snd g)))
       (buildGraphFromElements (ctx_store tailDiagram) [1, 2, 3, 4])
     = Inr (tailNodes, tailAdjacency)
   \<and> assignRanks tailNodes tailAdjacency = Some (Inr tailNodes)
   \<and> (''Task_B'', ''Task_C'') \<in> edges tailAdjacency
   \<and> (''Task_C'', ''Task_B'') \<notin> (edges tailAdjacency)\<^sup>*
   \<and> rankOf tailNodes ''Task_B'' = Some 0
   \<and> rankOf tailNodes ''Task_C'' = Some 0"
proof -
  have g: "map_sum id (\<lambda>g. (fst g, fst (snd g)))
       (buildGraphFromElements (ctx_store tailDiagram) [1, 2, 3, 4])
     = Inr (tailNodes, tailAdjacency)"
    by code_simp
  have run: "assignRanks tailNodes tailAdjacency = Some (Inr tailNodes)"
    by code_simp
  have e: "(''Task_B'', ''Task_C'') \<in> edges tailAdjacency"
    by (simp add: edges_def tailAdjacency_def)
  have "(''Task_C'', x) \<notin> edges tailAdjacency" for x
    by (simp add: edges_def tailAdjacency_def)
  then have nc: "(''Task_C'', ''Task_B'') \<notin> (edges tailAdjacency)\<^sup>*"
    by (auto elim: converse_rtranclE)
  have r: "rankOf tailNodes ''Task_B'' = Some 0" "rankOf tailNodes ''Task_C'' = Some 0"
    by (simp_all add: rankOf_def tailNodes_def taskNode_def)
  from g run e nc r show ?thesis by simp
qed

section \<open>Lane heights\<close>

lemma fold_max_ge_init:
  "(a::real) \<le> fold (\<lambda>r m. case f r of Some h \<Rightarrow> if h > m then h else m | None \<Rightarrow> m) rs a"
proof (induction rs arbitrary: a)
  case Nil
  then show ?case by simp
next
  case (Cons r rs)
  have "a \<le> (case f r of Some h \<Rightarrow> if h > a then h else a | None \<Rightarrow> a)"
    by (simp split: option.splits)
  also have "\<dots> \<le> fold (\<lambda>r m. case f r of Some h \<Rightarrow> if h > m then h else m | None \<Rightarrow> m) rs
                      (case f r of Some h \<Rightarrow> if h > a then h else a | None \<Rightarrow> a)"
    by (rule Cons.IH)
  finally show ?case by simp
qed

lemma fold_max_ge_elem:
  "r \<in> set rs \<Longrightarrow> f r = Some (h::real)
   \<Longrightarrow> h \<le> fold (\<lambda>r m. case f r of Some h \<Rightarrow> if h > m then h else m | None \<Rightarrow> m) rs a"
proof (induction rs arbitrary: a)
  case Nil
  then show ?case by simp
next
  case (Cons x rs)
  show ?case
  proof (cases "r = x")
    case True
    with Cons.prems(2) have "h \<le> (case f x of Some h \<Rightarrow> if h > a then h else a | None \<Rightarrow> a)"
      by simp
    also have "\<dots> \<le> fold (\<lambda>r m. case f r of Some h \<Rightarrow> if h > m then h else m | None \<Rightarrow> m) rs
                        (case f x of Some h \<Rightarrow> if h > a then h else a | None \<Rightarrow> a)"
      by (rule fold_max_ge_init)
    finally show ?thesis by simp
  next
    case False
    with Cons.prems have "r \<in> set rs" by simp
    from Cons.IH [OF this Cons.prems(2)] show ?thesis by simp
  qed
qed

lemma maxStackHeight_ge:
  "r \<le> g \<Longrightarrow> stackHeight c (nodesAt m r) = Some h \<Longrightarrow> h \<le> maxStackHeight c m g"
  unfolding maxStackHeight_def
  by (rule fold_max_ge_elem [where f = "\<lambda>r. stackHeight c (nodesAt m r)"]) auto

lemma maxStackHeight_nonneg: "0 \<le> maxStackHeight c m g"
  unfolding maxStackHeight_def
  by (rule fold_max_ge_init [where f = "\<lambda>r. stackHeight c (nodesAt m r)"])

lemma computeLaneHeights_nth:
  assumes "i < length laneData"
  shows "computeLaneHeights st laneData g c ! i =
     (fst (laneData ! i),
      (snd (laneData ! i))\<lparr>ln_height :=
         max (num (el_height (st (ln_element (snd (laneData ! i))))))
             (maxStackHeight c (snd (laneData ! i)) g + lanePadding c * 2)\<rparr>)"
  using assms by (simp add: computeLaneHeights_def Let_def split_beta)

lemma laneInv_init:
  "laneInv st (ld, g) \<Longrightarrow>
   laneInv st (fold (\<lambda>lane. AList.update (li_id lane)
                    \<lparr>ln_id = li_id lane, ln_element = li_element lane, ln_maxStack = 1,
                     ln_y = li_y lane, ln_height = li_height lane, ln_nodesByRank = Map.empty\<rparr>)
              (map (laneInputOf st) lanes) ld, g)"
proof (induction lanes arbitrary: ld)
  case Nil
  then show ?case by simp
next
  case (Cons lane lanes)
  have "laneInv st (AList.update (li_id (laneInputOf st lane))
                    \<lparr>ln_id = li_id (laneInputOf st lane), ln_element = li_element (laneInputOf st lane),
                     ln_maxStack = 1, ln_y = li_y (laneInputOf st lane),
                     ln_height = li_height (laneInputOf st lane), ln_nodesByRank = Map.empty\<rparr> ld, g)"
    using Cons.prems
    by (auto simp: laneInv_def laneInputOf_def dest!: set_update_alist)
  from Cons.IH [OF this] show ?case by simp
qed

lemma laneInv_placeNode:
  assumes "laneInv st s"
  shows "laneInv st (placeNode node s)"
proof -
  obtain ld g where s: "s = (ld, g)" by (cases s)
  define g' where "g' = (if nd_rank node > g then nd_rank node else g)"
  have gg: "g \<le> g'" "nd_rank node \<le> g'" by (simp_all add: g'_def)
  from assms s gg(1) have w: "laneInv st (ld, g')"
    by (fastforce simp: laneInv_def)
  show ?thesis
  proof (cases "map_of ld (nd_laneId node)")
    case None
    with w show ?thesis by (simp add: s placeNode_def g'_def Let_def)
  next
    case (Some meta)
    then have "(nd_laneId node, meta) \<in> set ld" by (rule map_of_SomeD)
    with w have m: "ln_height meta = num (el_height (st (ln_element meta)))"
      "\<forall>r nodes. ln_nodesByRank meta r = Some nodes \<longrightarrow> r \<le> g'"
      by (auto simp: laneInv_def)
    have "laneInv st (AList.update (nd_laneId node)
                  (meta\<lparr>ln_nodesByRank :=
                      (ln_nodesByRank meta)(nd_rank node \<mapsto> nodesAt meta (nd_rank node) @ [node])\<rparr>)
                  ld, g')"
      unfolding laneInv_def
    proof (intro ballI)
      fix e assume "e \<in> set (fst (AList.update (nd_laneId node)
                  (meta\<lparr>ln_nodesByRank :=
                      (ln_nodesByRank meta)(nd_rank node \<mapsto> nodesAt meta (nd_rank node) @ [node])\<rparr>)
                  ld, g'))"
      then have "e = (nd_laneId node, meta\<lparr>ln_nodesByRank :=
                      (ln_nodesByRank meta)(nd_rank node \<mapsto> nodesAt meta (nd_rank node) @ [node])\<rparr>)
                 \<or> e \<in> set ld"
        by (auto dest!: set_update_alist)
      then show "case e of (k, m) \<Rightarrow>
         ln_height m = num (el_height (st (ln_element m)))
         \<and> (\<forall>r nodes. ln_nodesByRank m r = Some nodes \<longrightarrow> r \<le> snd (AList.update (nd_laneId node)
                  (meta\<lparr>ln_nodesByRank :=
                      (ln_nodesByRank meta)(nd_rank node \<mapsto> nodesAt meta (nd_rank node) @ [node])\<rparr>)
                  ld, g'))"
      proof
        assume "e = (nd_laneId node, meta\<lparr>ln_nodesByRank :=
                      (ln_nodesByRank meta)(nd_rank node \<mapsto> nodesAt meta (nd_rank node) @ [node])\<rparr>)"
        with m gg(2) show ?thesis by auto
      next
        assume "e \<in> set ld"
        with w show ?thesis by (auto simp: laneInv_def)
      qed
    qed
    with Some show ?thesis by (simp add: s placeNode_def g'_def Let_def)
  qed
qed

lemma laneInv_buildLaneData:
  "laneInv st (buildLaneData (map (laneInputOf st) lanes) nodeMap)"
proof -
  have f: "laneInv st s \<Longrightarrow> laneInv st (fold (\<lambda>(k, node). placeNode node) nm s)"
    for nm :: nodeMap and s
  proof (induction nm arbitrary: s)
    case Nil
    then show ?case by simp
  next
    case (Cons e nm)
    from Cons.prems have "laneInv st (placeNode (snd e) s)" by (rule laneInv_placeNode)
    from Cons.IH [OF this] show ?case by (simp add: split_beta)
  qed
  have "laneInv st ([], 0)" by (simp add: laneInv_def)
  from f [OF laneInv_init [OF this]] show ?thesis
    by (simp add: buildLaneData_def Let_def)
qed


text \<open>The stack height is a number when every node of the stack has a height, and NaN otherwise.\<close>

lemma foldl_arith_Some:
  "map f xs = map Some hs
   \<Longrightarrow> foldl (\<lambda>sum n. arith (+) sum (f n)) (Some a) xs = Some (a + sum_list hs)"
proof (induction xs arbitrary: a hs)
  case Nil
  then show ?case by simp
next
  case (Cons x xs)
  from Cons.prems obtain h hs' where hs: "hs = h # hs'" and x: "f x = Some h"
    and r: "map f xs = map Some hs'"
    by (cases hs) auto
  from Cons.IH [OF r, of "a + h"] x show ?case
    by (simp add: hs arith_def add.assoc)
qed

lemma foldl_arith_None:
  "foldl (\<lambda>sum n. arith (+) sum (f n)) None xs = None"
  by (induction xs) (simp_all add: arith_def)

lemma foldl_arith_NaN:
  "None \<in> set (map f xs) \<Longrightarrow> foldl (\<lambda>sum n. arith (+) sum (f n)) a xs = None"
proof (induction xs arbitrary: a)
  case Nil
  then show ?case by simp
next
  case (Cons x xs)
  show ?case
  proof (cases "f x")
    case None
    then have "arith (+) a (f x) = None" by (simp add: arith_def split: option.splits)
    then show ?thesis by (simp add: foldl_arith_None)
  next
    case (Some h)
    with Cons.prems have "None \<in> set (map f xs)" by auto
    from Cons.IH [OF this] show ?thesis by simp
  qed
qed

lemma stackHeight_number:
  assumes "map nd_height nodes = map Some hs"
  shows "stackHeight c nodes = Some (sum_list hs + (real (length nodes) - 1) * rowSpacing c)"
  unfolding stackHeight_def foldl_arith_Some [OF assms] by (simp add: arith_def)

lemma stackHeight_NaN:
  assumes "None \<in> set (map nd_height nodes)"
  shows "stackHeight c nodes = None"
  unfolding stackHeight_def foldl_arith_NaN [OF assms] by (simp add: arith_def)

text \<open>
  The new height of a lane, whatever the lane data: at least the height of the lane's
  element, and at least the stack height plus twice \<open>lanePadding\<close> for the ranks up to
  \<open>maxGlobalRank\<close> whose stack height is a number.
\<close>

lemma computeLaneHeights_height:
  assumes "i < length laneData"
  shows "fst (computeLaneHeights st laneData g c ! i) = fst (laneData ! i)"
    and "snd (computeLaneHeights st laneData g c ! i)
           = (snd (laneData ! i))\<lparr>ln_height := ln_height (snd (computeLaneHeights st laneData g c ! i))\<rparr>"
    and "num (el_height (st (ln_element (snd (laneData ! i)))))
           \<le> ln_height (snd (computeLaneHeights st laneData g c ! i))"
    and "r \<le> g \<Longrightarrow> stackHeight c (nodesAt (snd (laneData ! i)) r) = Some h
           \<Longrightarrow> h + 2 * lanePadding c \<le> ln_height (snd (computeLaneHeights st laneData g c ! i))"
proof -
  note n = computeLaneHeights_nth [OF assms, of st g c]
  show "fst (computeLaneHeights st laneData g c ! i) = fst (laneData ! i)"
    by (simp add: n)
  show "snd (computeLaneHeights st laneData g c ! i)
           = (snd (laneData ! i))\<lparr>ln_height := ln_height (snd (computeLaneHeights st laneData g c ! i))\<rparr>"
    by (simp add: n)
  show "num (el_height (st (ln_element (snd (laneData ! i)))))
           \<le> ln_height (snd (computeLaneHeights st laneData g c ! i))"
    by (simp add: n)
  show "h + 2 * lanePadding c \<le> ln_height (snd (computeLaneHeights st laneData g c ! i))"
    if "r \<le> g" "stackHeight c (nodesAt (snd (laneData ! i)) r) = Some h"
    using maxStackHeight_ge [OF that] by (simp add: n)
qed

text \<open>
  Claim C8, as stated: after \<open>computeLaneHeights\<close> every lane is at least as high as
  before and as every stack of its ranks requires. The function takes the old height
  from the lane's element, not from the lane data, and looks at the ranks up to the
  \<open>maxGlobalRank\<close> it is given. A lane entered with height 500 whose element has height
  100 comes out with height 350; and with \<open>maxGlobalRank\<close> 0 the sample lane, which
  holds a stack at rank 1 that requires 350, comes out with height 240. A stack with a
  node that has no height has the stack height NaN, and no lane height is at least NaN.
\<close>

theorem computeLaneHeights_lower_bound_counterexample:
  "buildLaneData [tallLaneInput] (laneNodes 0 1 1) = (tallLaneData, 1)
   \<and> ln_height (snd (tallLaneData ! 0)) = 500
   \<and> ln_height (snd (computeLaneHeights (ctx_store laneDiagram) tallLaneData 1
                        DEFAULT_LAYOUT_CONSTANTS ! 0)) = 350
   \<and> ln_nodesByRank (snd (sampleLaneData ! 0)) 1
       = Some [taskNode ''Task_B'' 2 1, taskNode ''Task_C'' 3 1]
   \<and> stackHeight DEFAULT_LAYOUT_CONSTANTS [taskNode ''Task_B'' 2 1, taskNode ''Task_C'' 3 1]
       = Some 190
   \<and> 190 + 2 * lanePadding DEFAULT_LAYOUT_CONSTANTS = 350
   \<and> ln_height (snd (computeLaneHeights (ctx_store laneDiagram) sampleLaneData 0
                        DEFAULT_LAYOUT_CONSTANTS ! 0)) = 240
   \<and> stackHeight DEFAULT_LAYOUT_CONSTANTS
         [(taskNode ''Task_B'' 2 1)\<lparr>nd_height := None\<rparr>, taskNode ''Task_C'' 3 1] = None"
proof -
  have tl: "tallLaneData =
     [(''Lane_1'', \<lparr>ln_id = ''Lane_1'', ln_element = 0, ln_maxStack = 1, ln_y = 0, ln_height = 500,
         ln_nodesByRank = [0 \<mapsto> [taskNode ''Task_A'' 1 0],
                           1 \<mapsto> [taskNode ''Task_B'' 2 1, taskNode ''Task_C'' 3 1]]\<rparr>)]"
    by (simp add: tallLaneData_def tallLaneInput_def buildLaneData_def placeNode_def laneNodes_def
          taskNode_def Let_def nodesAt_def fun_upd_twist)
  have sl: "sampleLaneData =
     [(''Lane_1'', \<lparr>ln_id = ''Lane_1'', ln_element = 0, ln_maxStack = 1, ln_y = 0, ln_height = 100,
         ln_nodesByRank = [0 \<mapsto> [taskNode ''Task_A'' 1 0],
                           1 \<mapsto> [taskNode ''Task_B'' 2 1, taskNode ''Task_C'' 3 1]]\<rparr>)]"
    by (simp add: sampleLaneData_def buildLaneData_def placeNode_def laneNodes_def taskNode_def
          laneInputOf_def laneDiagram_def storeOf_def shape_def blankElement_def Let_def
          nodesAt_def num_def fun_upd_twist)
  have "buildLaneData [tallLaneInput] (laneNodes 0 1 1) = (tallLaneData, 1)"
    by (simp add: tallLaneData_def tallLaneInput_def buildLaneData_def placeNode_def laneNodes_def
          taskNode_def Let_def)
  moreover have "ln_height (snd (tallLaneData ! 0)) = 500" by (simp add: tl)
  moreover have "ln_height (snd (computeLaneHeights (ctx_store laneDiagram) tallLaneData 1
                        DEFAULT_LAYOUT_CONSTANTS ! 0)) = 350"
    by (simp add: tl computeLaneHeights_def maxStackHeight_def stackHeight_def arith_def
          nodesAt_def taskNode_def DEFAULT_LAYOUT_CONSTANTS_def laneDiagram_def storeOf_def
          shape_def blankElement_def num_def Let_def upt_rec)
  moreover have "ln_nodesByRank (snd (sampleLaneData ! 0)) 1
       = Some [taskNode ''Task_B'' 2 1, taskNode ''Task_C'' 3 1]"
    by (simp add: sl)
  moreover have "stackHeight DEFAULT_LAYOUT_CONSTANTS
                   [taskNode ''Task_B'' 2 1, taskNode ''Task_C'' 3 1] = Some 190"
    by (simp add: stackHeight_def arith_def taskNode_def DEFAULT_LAYOUT_CONSTANTS_def)
  moreover have "190 + 2 * lanePadding DEFAULT_LAYOUT_CONSTANTS = 350"
    by (simp add: DEFAULT_LAYOUT_CONSTANTS_def)
  moreover have "ln_height (snd (computeLaneHeights (ctx_store laneDiagram) sampleLaneData 0
                        DEFAULT_LAYOUT_CONSTANTS ! 0)) = 240"
    by (simp add: sl computeLaneHeights_def maxStackHeight_def stackHeight_def arith_def
          nodesAt_def taskNode_def DEFAULT_LAYOUT_CONSTANTS_def laneDiagram_def storeOf_def
          shape_def blankElement_def num_def Let_def upt_rec)
  moreover have "stackHeight DEFAULT_LAYOUT_CONSTANTS
         [(taskNode ''Task_B'' 2 1)\<lparr>nd_height := None\<rparr>, taskNode ''Task_C'' 3 1] = None"
    by (simp add: stackHeight_def arith_def taskNode_def)
  ultimately show ?thesis by blast
qed

text \<open>
  Claim C8, amended. Let the height of every lane of the lane data be the height of its
  element (0 when the element has none), and let no lane hold nodes at a rank above
  \<open>maxGlobalRank\<close> (\<open>laneInv\<close>); \<open>buildLaneData\<close> returns such lane data and
  \<open>maxGlobalRank\<close> for the lanes that \<open>autoLayout\<close> passes to it. Then
  \<open>computeLaneHeights\<close> changes nothing but the height of each lane, and the new height
  is at least the height the lane had before and at least the stack height plus twice
  \<open>lanePadding\<close> for every stack of nodes that the lane holds at a rank and whose nodes
  all have a height, where the stack height is the sum of the heights of the nodes plus
  \<open>(count - 1) * rowSpacing\<close>.
\<close>

theorem computeLaneHeights_lower_bound:
  assumes inv: "laneInv st (laneData, g)" and i: "i < length laneData"
  shows "length (computeLaneHeights st laneData g c) = length laneData
    \<and> (case (laneData ! i, computeLaneHeights st laneData g c ! i) of ((k, m), (k', m')) \<Rightarrow>
         k' = k \<and> m' = m\<lparr>ln_height := ln_height m'\<rparr>
         \<and> ln_height m \<le> ln_height m'
         \<and> (\<forall>r nodes hs. ln_nodesByRank m r = Some nodes \<and> map nd_height nodes = map Some hs \<longrightarrow>
               stackHeight c nodes = Some (sum_list hs + (real (length nodes) - 1) * rowSpacing c)
               \<and> sum_list hs + (real (length nodes) - 1) * rowSpacing c + 2 * lanePadding c
                   \<le> ln_height m'))
    \<and> laneInv st (buildLaneData (map (laneInputOf st) lanes) nodeMap)"
proof -
  obtain k m where e: "laneData ! i = (k, m)" by (cases "laneData ! i")
  obtain k' m' where e': "computeLaneHeights st laneData g c ! i = (k', m')"
    by (cases "computeLaneHeights st laneData g c ! i")
  from computeLaneHeights_height [OF i, where st = st and g = g and c = c] e e'
  have k: "k' = k" and m: "m' = m\<lparr>ln_height := ln_height m'\<rparr>"
    and a: "num (el_height (st (ln_element m))) \<le> ln_height m'"
    and b: "\<And>r h. r \<le> g \<Longrightarrow> stackHeight c (nodesAt m r) = Some h
                 \<Longrightarrow> h + 2 * lanePadding c \<le> ln_height m'"
    by simp_all
  from i e have "(k, m) \<in> set laneData" by (metis nth_mem)
  with inv have h: "ln_height m = num (el_height (st (ln_element m)))"
    and rk: "\<And>r nodes. ln_nodesByRank m r = Some nodes \<Longrightarrow> r \<le> g"
    by (auto simp: laneInv_def)
  have st: "stackHeight c nodes = Some (sum_list hs + (real (length nodes) - 1) * rowSpacing c)
            \<and> sum_list hs + (real (length nodes) - 1) * rowSpacing c + 2 * lanePadding c
                \<le> ln_height m'"
    if n: "ln_nodesByRank m r = Some nodes" and hs: "map nd_height nodes = map Some hs"
    for r nodes hs
  proof -
    note s = stackHeight_number [OF hs, of c]
    from n s have "stackHeight c (nodesAt m r)
                     = Some (sum_list hs + (real (length nodes) - 1) * rowSpacing c)"
      by (simp add: nodesAt_def)
    from b [OF rk [OF n] this] s show ?thesis by simp
  qed
  have l: "length (computeLaneHeights st laneData g c) = length laneData"
    by (simp add: computeLaneHeights_def)
  from a h have old: "ln_height m \<le> ln_height m'" by simp
  from k m old st have "case (laneData ! i, computeLaneHeights st laneData g c ! i) of
      ((k, m), (k', m')) \<Rightarrow>
         k' = k \<and> m' = m\<lparr>ln_height := ln_height m'\<rparr>
         \<and> ln_height m \<le> ln_height m'
         \<and> (\<forall>r nodes hs. ln_nodesByRank m r = Some nodes \<and> map nd_height nodes = map Some hs \<longrightarrow>
               stackHeight c nodes = Some (sum_list hs + (real (length nodes) - 1) * rowSpacing c)
               \<and> sum_list hs + (real (length nodes) - 1) * rowSpacing c + 2 * lanePadding c
                   \<le> ln_height m')"
    unfolding e e' prod.case by blast
  with l laneInv_buildLaneData [of st lanes nodeMap] show ?thesis by blast
qed

theorem computeLaneHeights_lower_bound_witness:
  "buildLaneData (map (laneInputOf (ctx_store laneDiagram)) [0]) (laneNodes 0 1 1)
     = (sampleLaneData, 1)
   \<and> laneInv (ctx_store laneDiagram) (sampleLaneData, 1)
   \<and> 0 < length sampleLaneData
   \<and> ln_nodesByRank (snd (sampleLaneData ! 0)) 1
       = Some [taskNode ''Task_B'' 2 1, taskNode ''Task_C'' 3 1]
   \<and> map nd_height [taskNode ''Task_B'' 2 1, taskNode ''Task_C'' 3 1] = map Some [80, 80]
   \<and> stackHeight DEFAULT_LAYOUT_CONSTANTS [taskNode ''Task_B'' 2 1, taskNode ''Task_C'' 3 1]
       = Some 190
   \<and> ln_height (snd (sampleLaneData ! 0)) = 100
   \<and> ln_height (snd (computeLaneHeights (ctx_store laneDiagram) sampleLaneData 1
                        DEFAULT_LAYOUT_CONSTANTS ! 0)) = 350
   \<and> ln_height (snd (sampleLaneData ! 0))
       \<le> ln_height (snd (computeLaneHeights (ctx_store laneDiagram) sampleLaneData 1
                        DEFAULT_LAYOUT_CONSTANTS ! 0))
   \<and> 190 + 2 * lanePadding DEFAULT_LAYOUT_CONSTANTS
       \<le> ln_height (snd (computeLaneHeights (ctx_store laneDiagram) sampleLaneData 1
                        DEFAULT_LAYOUT_CONSTANTS ! 0))"
proof -
  have bl: "buildLaneData (map (laneInputOf (ctx_store laneDiagram)) [0]) (laneNodes 0 1 1)
     = (sampleLaneData, 1)"
    by (simp add: sampleLaneData_def buildLaneData_def placeNode_def laneNodes_def taskNode_def
          laneInputOf_def laneDiagram_def storeOf_def shape_def blankElement_def Let_def)
  have sl: "sampleLaneData =
     [(''Lane_1'', \<lparr>ln_id = ''Lane_1'', ln_element = 0, ln_maxStack = 1, ln_y = 0, ln_height = 100,
         ln_nodesByRank = [0 \<mapsto> [taskNode ''Task_A'' 1 0],
                           1 \<mapsto> [taskNode ''Task_B'' 2 1, taskNode ''Task_C'' 3 1]]\<rparr>)]"
    by (simp add: sampleLaneData_def buildLaneData_def placeNode_def laneNodes_def taskNode_def
          laneInputOf_def laneDiagram_def storeOf_def shape_def blankElement_def Let_def
          nodesAt_def num_def fun_upd_twist)
  have inv: "laneInv (ctx_store laneDiagram) (sampleLaneData, 1)"
    by (simp add: sl laneInv_def laneDiagram_def storeOf_def shape_def blankElement_def num_def)
  have len: "0 < length sampleLaneData" by (simp add: sl)
  have nb: "ln_nodesByRank (snd (sampleLaneData ! 0)) 1
       = Some [taskNode ''Task_B'' 2 1, taskNode ''Task_C'' 3 1]"
    by (simp add: sl)
  have hs: "map nd_height [taskNode ''Task_B'' 2 1, taskNode ''Task_C'' 3 1] = map Some [80, 80]"
    by (simp add: taskNode_def)
  have sh: "stackHeight DEFAULT_LAYOUT_CONSTANTS [taskNode ''Task_B'' 2 1, taskNode ''Task_C'' 3 1]
              = Some 190"
    by (simp add: stackHeight_def arith_def taskNode_def DEFAULT_LAYOUT_CONSTANTS_def)
  have h0: "ln_height (snd (sampleLaneData ! 0)) = 100" by (simp add: sl)
  have h1: "ln_height (snd (computeLaneHeights (ctx_store laneDiagram) sampleLaneData 1
                        DEFAULT_LAYOUT_CONSTANTS ! 0)) = 350"
    by (simp add: sl computeLaneHeights_def maxStackHeight_def stackHeight_def arith_def
          nodesAt_def taskNode_def DEFAULT_LAYOUT_CONSTANTS_def laneDiagram_def storeOf_def
          shape_def blankElement_def num_def Let_def upt_rec)
  from computeLaneHeights_lower_bound [OF inv len, of DEFAULT_LAYOUT_CONSTANTS,
      unfolded split_beta fst_conv snd_conv]
  have all: "\<forall>r nodes hs. ln_nodesByRank (snd (sampleLaneData ! 0)) r = Some nodes
              \<and> map nd_height nodes = map Some hs \<longrightarrow>
              stackHeight DEFAULT_LAYOUT_CONSTANTS nodes
                = Some (sum_list hs + (real (length nodes) - 1) * rowSpacing DEFAULT_LAYOUT_CONSTANTS)
              \<and> sum_list hs + (real (length nodes) - 1) * rowSpacing DEFAULT_LAYOUT_CONSTANTS
                  + 2 * lanePadding DEFAULT_LAYOUT_CONSTANTS
                \<le> ln_height (snd (computeLaneHeights (ctx_store laneDiagram) sampleLaneData 1
                        DEFAULT_LAYOUT_CONSTANTS ! 0))"
    and old: "ln_height (snd (sampleLaneData ! 0))
          \<le> ln_height (snd (computeLaneHeights (ctx_store laneDiagram) sampleLaneData 1
                        DEFAULT_LAYOUT_CONSTANTS ! 0))"
    by blast+
  from all nb hs
  have "sum_list [80, 80] + (real (length [taskNode ''Task_B'' 2 1, taskNode ''Task_C'' 3 1]) - 1)
            * rowSpacing DEFAULT_LAYOUT_CONSTANTS
          + 2 * lanePadding DEFAULT_LAYOUT_CONSTANTS
        \<le> ln_height (snd (computeLaneHeights (ctx_store laneDiagram) sampleLaneData 1
                        DEFAULT_LAYOUT_CONSTANTS ! 0))"
    by blast
  then have "190 + 2 * lanePadding DEFAULT_LAYOUT_CONSTANTS
       \<le> ln_height (snd (computeLaneHeights (ctx_store laneDiagram) sampleLaneData 1
                        DEFAULT_LAYOUT_CONSTANTS ! 0))"
    by (simp add: DEFAULT_LAYOUT_CONSTANTS_def)
  with bl inv len nb hs sh h0 h1 old show ?thesis by blast
qed

section \<open>Auto layout without lanes or without elements\<close>

text \<open>
  Claim C9. When the lane query (lanes, else participants, else processes) yields
  nothing or the flow-element query yields nothing, \<open>autoLayout\<close> returns with the store
  unchanged and without a single command, whatever the host and the constants are.
\<close>

theorem autoLayout_noop:
  "getLanes context = [] \<or> getFlowElements context = []
   \<Longrightarrow> autoLayout modeling context constants = Some (Inr (ctx_store context, []))"
  by (auto simp: autoLayout_def Let_def)

theorem autoLayout_noop_witness:
  "getLanes chainDiagram = [] \<and> getFlowElements chainDiagram = [0, 1, 2]
   \<and> autoLayout specHost chainDiagram DEFAULT_LAYOUT_CONSTANTS = Some (Inr (ctx_store chainDiagram, []))
   \<and> getLanes onlyLaneDiagram = [0] \<and> getFlowElements onlyLaneDiagram = []
   \<and> autoLayout specHost onlyLaneDiagram DEFAULT_LAYOUT_CONSTANTS
       = Some (Inr (ctx_store onlyLaneDiagram, []))"
proof -
  have a: "getLanes chainDiagram = []" "getFlowElements chainDiagram = [0, 1, 2]"
    by (simp_all add: getLanes_def getFlowElements_def diagram_defs)
  have b: "getLanes onlyLaneDiagram = [0]" "getFlowElements onlyLaneDiagram = []"
    by (simp_all add: getLanes_def getFlowElements_def onlyLaneDiagram_def diagram_defs)
  from a b autoLayout_noop [of chainDiagram specHost DEFAULT_LAYOUT_CONSTANTS]
    autoLayout_noop [of onlyLaneDiagram specHost DEFAULT_LAYOUT_CONSTANTS]
  show ?thesis by simp
qed

text \<open>
  With a lane and flow elements the call is not a no-op: for the sample lane with the
  chain of three tasks it resizes the lane from 100 to 240, moves the three tasks and
  reroutes the two sequence flows. On the cycle of two tasks it never returns.
\<close>

lemma autoLayout_sample_run:
  "map_option (map_sum id snd) (autoLayout specHost laneDiagram DEFAULT_LAYOUT_CONSTANTS) =
     Some (Inr [ResizeShape 0 \<lparr>bd_x = 0, bd_y = 0, bd_width = 600, bd_height = 240\<rparr>,
        MoveElements [1] \<lparr>dl_x = Some (- 20), dl_y = Some 70\<rparr> (Some 0),
        MoveElements [2] \<lparr>dl_x = Some (- 40), dl_y = Some 70\<rparr> (Some 0),
        MoveElements [3] \<lparr>dl_x = Some (- 60), dl_y = Some 70\<rparr> (Some 0),
        UpdateWaypoints 4
         [\<lparr>pt_x = 180, pt_y = 120\<rparr>, \<lparr>pt_x = 220, pt_y = 120\<rparr>,
          \<lparr>pt_x = 220, pt_y = 120\<rparr>, \<lparr>pt_x = 260, pt_y = 120\<rparr>],
        UpdateWaypoints 5
         [\<lparr>pt_x = 360, pt_y = 120\<rparr>, \<lparr>pt_x = 400, pt_y = 120\<rparr>,
          \<lparr>pt_x = 400, pt_y = 120\<rparr>, \<lparr>pt_x = 440, pt_y = 120\<rparr>]])"
  by code_simp

text \<open>
  A task without width and height is passed over by the rank widths and the lane
  heights, and is moved by a delta whose \<open>y\<close> is NaN.
\<close>

lemma autoLayout_no_size_run:
  "map_option (map_sum id snd) (autoLayout specHost noSizeDiagram DEFAULT_LAYOUT_CONSTANTS) =
     Some (Inr [ResizeShape 0 \<lparr>bd_x = 0, bd_y = 0, bd_width = 600, bd_height = 160\<rparr>,
        MoveElements [1] \<lparr>dl_x = Some (- 20), dl_y = None\<rparr> (Some 0)])"
  by code_simp

lemma autoLayout_cycle_diverges:
  "autoLayout modeling cycleDiagram constants = None"
proof -
  have l: "getLanes cycleDiagram = [0]" and e: "getFlowElements cycleDiagram = [1, 2]"
    by (simp_all add: getLanes_def getFlowElements_def cycleDiagram_def diagram_defs)
  have "map_sum id (\<lambda>g. (fst g, fst (snd g)))
       (buildGraphFromElements (ctx_store cycleDiagram) [1, 2])
     = Inr (cycleNodes 0 0, cycleAdjacency)"
    by code_simp
  then obtain d where g: "buildGraphFromElements (ctx_store cycleDiagram) [1, 2]
     = Inr (cycleNodes 0 0, cycleAdjacency, d)"
    by (cases "buildGraphFromElements (ctx_store cycleDiagram) [1, 2]") auto
  have cs: "cycleState (cycleNodes 0 0, [''Task_A''])"
    unfolding cycleState_def by (intro exI [of _ 0]) simp
  have "rankLoop cycleAdjacency (cycleNodes 0 0, [''Task_A'']) = None"
  proof (cases "rankLoop cycleAdjacency (cycleNodes 0 0, [''Task_A''])")
    case (Some y)
    from cycle_never_returns [OF Some] cs show ?thesis by simp
  qed simp
  then have "assignRanks (cycleNodes 0 0) cycleAdjacency = None"
    by (simp add: assignRanks_def cycle_queue)
  then show ?thesis
    unfolding autoLayout_def Let_def l e g by simp
qed

end
